theory Spec2Isabelle
  imports Main "HOL-Library.Word" "HOL-Library.Multiset"
begin

section \<open>Images: the part of Go's image and image/draw packages that main.go uses\<close>

text \<open>
  A pixel is the colour in the RGBA colour model, four 8-bit channels. The zero value
  \<open>color.RGBA{}\<close> is what a fresh \<open>image.NewRGBA\<close> canvas holds everywhere.
\<close>

type_synonym RGBA = "8 word \<times> 8 word \<times> 8 word \<times> 8 word"

definition zeroRGBA :: RGBA where
  "zeroRGBA = (0, 0, 0, 0)"

record Point =
  X :: int
  Y :: int

record Rectangle =
  MinPt :: Point
  MaxPt :: Point

text \<open>
  \<open>image.Image\<close> is an interface with \<open>Bounds()\<close> and \<open>At(x, y)\<close>. A variable of that
  type can also be the nil interface, which the model writes as \<open>None\<close> of
  \<open>Image option\<close>; calling a method on it is a run-time panic.
\<close>

record Image =
  Bounds :: Rectangle
  At :: "int \<Rightarrow> int \<Rightarrow> RGBA"

datatype failure = NilPointerDereference | NegativeDimensions | LogFatal

definition Pt :: "int \<Rightarrow> int \<Rightarrow> Point" where
  "Pt x y = \<lparr>X = x, Y = y\<rparr>"

definition Dx :: "Rectangle \<Rightarrow> int" where
  "Dx r = X (MaxPt r) - X (MinPt r)"

definition Dy :: "Rectangle \<Rightarrow> int" where
  "Dy r = Y (MaxPt r) - Y (MinPt r)"

text \<open>\<open>image.Rect\<close> swaps the coordinates that are out of order.\<close>

definition Rect :: "int \<Rightarrow> int \<Rightarrow> int \<Rightarrow> int \<Rightarrow> Rectangle" where
  "Rect x0 y0 x1 y1 =
     \<lparr>MinPt = Pt (if x0 > x1 then x1 else x0) (if y0 > y1 then y1 else y0),
      MaxPt = Pt (if x0 > x1 then x0 else x1) (if y0 > y1 then y0 else y1)\<rparr>"

definition ZR :: Rectangle where
  "ZR = \<lparr>MinPt = Pt 0 0, MaxPt = Pt 0 0\<rparr>"

definition Empty :: "Rectangle \<Rightarrow> bool" where
  "Empty r \<longleftrightarrow> X (MinPt r) \<ge> X (MaxPt r) \<or> Y (MinPt r) \<ge> Y (MaxPt r)"

definition SubPt :: "Point \<Rightarrow> Point \<Rightarrow> Point" where
  "SubPt p q = Pt (X p - X q) (Y p - Y q)"

definition Add :: "Rectangle \<Rightarrow> Point \<Rightarrow> Rectangle" where
  "Add r p =
     \<lparr>MinPt = Pt (X (MinPt r) + X p) (Y (MinPt r) + Y p),
      MaxPt = Pt (X (MaxPt r) + X p) (Y (MaxPt r) + Y p)\<rparr>"

definition Intersect :: "Rectangle \<Rightarrow> Rectangle \<Rightarrow> Rectangle" where
  "Intersect r s =
     (let r' = \<lparr>MinPt = Pt (if X (MinPt r) < X (MinPt s) then X (MinPt s) else X (MinPt r))
                            (if Y (MinPt r) < Y (MinPt s) then Y (MinPt s) else Y (MinPt r)),
                 MaxPt = Pt (if X (MaxPt r) > X (MaxPt s) then X (MaxPt s) else X (MaxPt r))
                            (if Y (MaxPt r) > Y (MaxPt s) then Y (MaxPt s) else Y (MaxPt r))\<rparr>
      in if Empty r' then ZR else r')"

definition In :: "int \<Rightarrow> int \<Rightarrow> Rectangle \<Rightarrow> bool" where
  "In x y r \<longleftrightarrow> X (MinPt r) \<le> x \<and> x < X (MaxPt r) \<and> Y (MinPt r) \<le> y \<and> y < Y (MaxPt r)"

text \<open>
  \<open>image.NewRGBA(r)\<close> panics on a rectangle of negative width or height and otherwise
  returns a canvas with bounds \<open>r\<close> whose pixels are all the zero colour.
\<close>

definition NewRGBA :: "Rectangle \<Rightarrow> failure + Image" where
  "NewRGBA r =
     (if Dx r < 0 \<or> Dy r < 0 then Inl NegativeDimensions
      else Inr \<lparr>Bounds = r, At = (\<lambda>x y. zeroRGBA)\<rparr>)"

text \<open>
  \<open>draw.Draw(dst, r, src, sp, draw.Src)\<close>: the rectangle \<open>r\<close> is clipped to the bounds of
  \<open>dst\<close> and to the bounds of \<open>src\<close> moved so that \<open>sp\<close> lands on \<open>r.Min\<close>; \<open>sp\<close> moves
  with the corner of \<open>r\<close>. Every point of the clipped rectangle then takes the colour of
  the matching point of \<open>src\<close>; the rest of \<open>dst\<close> keeps its colour.
\<close>

definition clip :: "Image \<Rightarrow> Rectangle \<Rightarrow> Image \<Rightarrow> Point \<Rightarrow> Rectangle \<times> Point" where
  "clip dst r src sp =
     (let orig = MinPt r;
          r1 = Intersect r (Bounds dst);
          r2 = Intersect r1 (Add (Bounds src) (SubPt orig sp));
          dx = X (MinPt r2) - X orig;
          dy = Y (MinPt r2) - Y orig
      in (r2, Pt (X sp + dx) (Y sp + dy)))"

definition Draw :: "Image \<Rightarrow> Rectangle \<Rightarrow> Image \<Rightarrow> Point \<Rightarrow> Image" where
  "Draw dst r src sp =
     (case clip dst r src sp of
        (r', sp') \<Rightarrow>
          if Empty r' then dst
          else dst\<lparr>At := (\<lambda>x y. if In x y r'
                                then At src (X sp' + (x - X (MinPt r'))) (Y sp' + (y - Y (MinPt r')))
                                else At dst x y)\<rparr>)"

section \<open>Files\<close>

text \<open>
  A path names nothing, a directory, a file that holds a PNG image of the given width
  and height, or a file with other content (an empty file among them). The PNG codec
  is taken as lossless on RGBA pixels. \<open>png.Decode\<close> reads width and height as signed
  32-bit numbers and rejects an image when either is not positive; the image it returns
  has its corner at the origin.
\<close>

datatype node = Dir | PngFile nat nat "int \<Rightarrow> int \<Rightarrow> RGBA" | OtherFile

type_synonym fs = "string \<Rightarrow> node option"

definition png_Decode :: "node \<Rightarrow> Image option" where
  "png_Decode f =
     (case f of
        PngFile w h pix \<Rightarrow>
          if w = 0 \<or> h = 0 \<or> w \<ge> 2 ^ 31 \<or> h \<ge> 2 ^ 31 then None
          else Some \<lparr>Bounds = Rect 0 0 (int w) (int h), At = pix\<rparr>
      | _ \<Rightarrow> None)"

text \<open>
  \<open>png.Encode\<close> refuses an image whose width or height is not positive or is \<open>2^32\<close> or
  more and then writes nothing, so the file that \<open>os.Create\<close> made stays empty. The
  file it writes holds the pixels relative to the corner of the bounds.
\<close>

definition png_Encode :: "Image \<Rightarrow> node" where
  "png_Encode m =
     (let mw = Dx (Bounds m); mh = Dy (Bounds m)
      in if mw \<le> 0 \<or> mh \<le> 0 \<or> mw \<ge> 2 ^ 32 \<or> mh \<ge> 2 ^ 32 then OtherFile
         else PngFile (nat mw) (nat mh)
                (\<lambda>x y. if 0 \<le> x \<and> x < mw \<and> 0 \<le> y \<and> y < mh
                       then At m (X (MinPt (Bounds m)) + x) (Y (MinPt (Bounds m)) + y)
                       else zeroRGBA))"

text \<open>
  \<open>os.Create\<close> followed by \<open>png.Encode\<close> on the file and the deferred \<open>Close\<close>. The
  errors of all three are discarded in main.go. Creating fails on a directory; the nil
  file then makes the write and the close fail without a panic, and nothing changes.
\<close>

definition createAndEncode :: "fs \<Rightarrow> string \<Rightarrow> Image \<Rightarrow> fs" where
  "createAndEncode files outputFile m =
     (case files outputFile of
        Some Dir \<Rightarrow> files
      | _ \<Rightarrow> files(outputFile \<mapsto> png_Encode m))"

text \<open>\<open>os.Remove\<close> with its error discarded; a directory is taken to be non-empty and stays.\<close>

definition os_Remove :: "fs \<Rightarrow> string \<Rightarrow> fs" where
  "os_Remove files path =
     (case files path of
        Some Dir \<Rightarrow> files
      | _ \<Rightarrow> files(path := None))"

text \<open>
  \<open>loadAndDecodePng\<close> returns the nil image when the file cannot be opened or decoded.
  Its second result, the error, is dropped at every call in main.go.
\<close>

definition loadAndDecodePng :: "fs \<Rightarrow> string \<Rightarrow> Image option" where
  "loadAndDecodePng files filePath =
     (case files filePath of
        None \<Rightarrow> None
      | Some f \<Rightarrow> png_Decode f)"

definition fileExists :: "fs \<Rightarrow> string \<Rightarrow> bool" where
  "fileExists files path =
     (case files path of
        None \<Rightarrow> False
      | Some Dir \<Rightarrow> False
      | Some _ \<Rightarrow> True)"

definition intMax :: "int \<Rightarrow> int \<Rightarrow> int" where
  "intMax i1 i2 = (if i1 > i2 then i1 else i2)"

section \<open>The per-job algorithm\<close>

record DiffJob =
  inFile1 :: string
  inFile2 :: string
  outFile :: string
  comparePath :: string

definition filterDiffJobs :: "fs \<Rightarrow> DiffJob \<Rightarrow> DiffJob option" where
  "filterDiffJobs files job =
     (if \<not> fileExists files (inFile1 job) \<or> \<not> fileExists files (inFile2 job) then None
      else Some job)"

definition resizeImage :: "fs \<Rightarrow> Image option \<Rightarrow> Rectangle \<Rightarrow> string \<Rightarrow> failure + fs" where
  "resizeImage files img1 sz outputFile =
     (case NewRGBA sz of
        Inl e \<Rightarrow> Inl e
      | Inr newImage \<Rightarrow>
          (case img1 of
             None \<Rightarrow> Inl NilPointerDereference
           | Some i1 \<Rightarrow>
               Inr (createAndEncode files outputFile
                      (Draw newImage (Bounds i1) i1 (Pt 0 0)))))"

definition commonSizeImageLengths ::
    "fs \<Rightarrow> string \<Rightarrow> string \<Rightarrow> string \<Rightarrow> failure + (fs \<times> string \<times> string)" where
  "commonSizeImageLengths files in1 in2 out =
     (case loadAndDecodePng files in1 of
        None \<Rightarrow> Inl NilPointerDereference
      | Some img1 \<Rightarrow>
          (case loadAndDecodePng files in2 of
             None \<Rightarrow> Inl NilPointerDereference
           | Some img2 \<Rightarrow>
               if Y (MaxPt (Bounds img1)) > Y (MaxPt (Bounds img2)) then
                 (case resizeImage files (Some img2) (Bounds img1) out of
                    Inl e \<Rightarrow> Inl e
                  | Inr files' \<Rightarrow> Inr (files', in1, out))
               else if Y (MaxPt (Bounds img2)) > Y (MaxPt (Bounds img1)) then
                 (case resizeImage files (Some img1) (Bounds img2) out of
                    Inl e \<Rightarrow> Inl e
                  | Inr files' \<Rightarrow> Inr (files', out, in2))
               else Inr (files, in1, in2)))"

definition combineCanvas :: "Image \<Rightarrow> Image \<Rightarrow> Image \<Rightarrow> failure + Image" where
  "combineCanvas img1 img2 img3 =
     (let width = X (MaxPt (Bounds img1)) + X (MaxPt (Bounds img2)) + X (MaxPt (Bounds img3));
          height = intMax (intMax (Y (MaxPt (Bounds img1))) (Y (MaxPt (Bounds img2))))
                     (Y (MaxPt (Bounds img3)));
          image2Offset = Pt (X (MaxPt (Bounds img1))) 0;
          image3Offset = Pt (X (MaxPt (Bounds img1)) + X (MaxPt (Bounds img2))) 0
      in case NewRGBA (Rect 0 0 width height) of
           Inl e \<Rightarrow> Inl e
         | Inr newImage \<Rightarrow>
             Inr (Draw (Draw (Draw newImage (Bounds img1) img1 (Pt 0 0))
                         (Add (Bounds img2) image2Offset) img2 (Pt 0 0))
                    (Add (Bounds img3) image3Offset) img3 (Pt 0 0)))"

text \<open>
  \<open>combineImages\<close> calls \<open>Bounds()\<close> on its three arguments first, in the order
  \<open>img1\<close>, \<open>img2\<close>, \<open>img3\<close>; a nil image stops it there with a panic.
\<close>

definition combineImages ::
    "fs \<Rightarrow> Image option \<Rightarrow> Image option \<Rightarrow> Image option \<Rightarrow> string \<Rightarrow> failure + fs" where
  "combineImages files img1 img2 img3 outputFile =
     (case img1 of
        None \<Rightarrow> Inl NilPointerDereference
      | Some i1 \<Rightarrow>
          (case img2 of
             None \<Rightarrow> Inl NilPointerDereference
           | Some i2 \<Rightarrow>
               (case img3 of
                  None \<Rightarrow> Inl NilPointerDereference
                | Some i3 \<Rightarrow>
                    (case combineCanvas i1 i2 i3 of
                       Inl e \<Rightarrow> Inl e
                     | Inr newImage \<Rightarrow> Inr (createAndEncode files outputFile newImage)))))"

text \<open>
  The external tool is run through \<open>sh -c\<close> on one command line. What it does to the
  files is not part of main.go, so it is a parameter: from the command line and the
  files before to the files after and whether the exit status was zero. main.go looks
  at neither the output nor the error.
\<close>

type_synonym shell = "string \<Rightarrow> fs \<Rightarrow> fs \<times> bool"

definition compareCommand :: "string \<Rightarrow> string \<Rightarrow> string \<Rightarrow> string \<Rightarrow> string" where
  "compareCommand cmp inA inB out =
     cmp @ '' '' @ inA @ '' '' @ inB @ '' -highlight-color blue '' @ out"

definition compareFiles ::
    "shell \<Rightarrow> fs \<Rightarrow> string \<Rightarrow> string \<Rightarrow> string \<Rightarrow> string \<Rightarrow> failure + fs" where
  "compareFiles sh files cmp in1 in2 out =
     (let resize = out @ ''tmp''
      in case commonSizeImageLengths files in1 in2 resize of
           Inl e \<Rightarrow> Inl e
         | Inr (files1, inA, inB) \<Rightarrow>
             (let files2 = fst (sh (compareCommand cmp inA inB out) files1);
                  img1 = loadAndDecodePng files2 inA;
                  img2 = loadAndDecodePng files2 inB;
                  imgDiff = loadAndDecodePng files2 out
              in case combineImages files2 img1 imgDiff img2 out of
                   Inl e \<Rightarrow> Inl e
                 | Inr files3 \<Rightarrow> Inr (os_Remove files3 resize)))"

definition diffFiles :: "shell \<Rightarrow> fs \<Rightarrow> DiffJob \<Rightarrow> failure + (fs \<times> DiffJob option)" where
  "diffFiles sh files job =
     (case compareFiles sh files (comparePath job) (inFile1 job) (inFile2 job) (outFile job) of
        Inl e \<Rightarrow> Inl e
      | Inr files' \<Rightarrow> Inr (files', Some job))"

section \<open>The job source\<close>

text \<open>
  \<open>filepath.Ext\<close> walks back from the end of the name to the last dot and stops at a
  path separator; it returns the suffix from that dot on, or the empty string.
\<close>

fun extScan :: "string \<Rightarrow> string \<Rightarrow> string" where
  "extScan [] suffix = []"
| "extScan (c # before) suffix =
     (if c = CHR ''/'' then []
      else if c = CHR ''.'' then c # suffix
      else extScan before (c # suffix))"

definition Ext :: "string \<Rightarrow> string" where
  "Ext path = extScan (rev path) []"

text \<open>
  An entry of a directory listing, \<open>os.FileInfo\<close>. \<open>ioutil.ReadDir\<close> lists files and
  sub-directories alike; the generator reads the name of an entry and nothing else.
\<close>

record FileInfo =
  Name :: string
  IsDir :: bool

text \<open>
  The generator sends one job for each entry of the listing that passes the test, in
  the order of the listing, and then closes the channel; the model returns the jobs it
  sends. \<open>filepath.Join\<close> and \<open>ioutil.ReadDir\<close> are parameters. A listing that fails
  ends the process through \<open>log.Fatal\<close>.
\<close>

fun sendJobs ::
    "(string \<Rightarrow> string \<Rightarrow> string) \<Rightarrow> string \<Rightarrow> string \<Rightarrow> string \<Rightarrow> string \<Rightarrow> FileInfo list
      \<Rightarrow> DiffJob list" where
  "sendJobs Join cmp inDir1 inDir2 outDir [] = []"
| "sendJobs Join cmp inDir1 inDir2 outDir (file # files) =
     (if Ext (Name file) = ''.png''
      then \<lparr>inFile1 = Join inDir1 (Name file), inFile2 = Join inDir2 (Name file),
            outFile = Join outDir (Name file), comparePath = cmp\<rparr>
           # sendJobs Join cmp inDir1 inDir2 outDir files
      else sendJobs Join cmp inDir1 inDir2 outDir files)"

definition grabJobChannelGenerator ::
    "(string \<Rightarrow> string \<Rightarrow> string) \<Rightarrow> (string \<Rightarrow> FileInfo list option)
      \<Rightarrow> string \<Rightarrow> string \<Rightarrow> string \<Rightarrow> string \<Rightarrow> failure + DiffJob list" where
  "grabJobChannelGenerator Join ReadDir cmp inDir1 inDir2 outDir =
     (case ReadDir inDir1 of
        None \<Rightarrow> Inl LogFatal
      | Some files \<Rightarrow> Inr (sendJobs Join cmp inDir1 inDir2 outDir files))"

section \<open>The command line\<close>

text \<open>
  The flag package, for the two flags main.go declares: \<open>-t\<close> (an int) and \<open>-compare\<close>
  (a string). \<open>parseOne\<close> looks at the first argument: it stops without an error at an
  argument that is not a flag and after \<open>--\<close>, and it consumes a flag together with its
  value, which is either written after \<open>=\<close> or is the next argument. The conversion
  of the value of \<open>-t\<close> to an int is a parameter.
\<close>

record flagValues =
  threads :: int
  compare :: string

datatype flagError = ErrHelp | ErrFailf

definition splitValue :: "string \<Rightarrow> string \<times> bool \<times> string" where
  "splitValue name =
     (if CHR ''='' \<in> set (tl name)
      then (hd name # takeWhile (\<lambda>c. c \<noteq> CHR ''='') (tl name), True,
            tl (dropWhile (\<lambda>c. c \<noteq> CHR ''='') (tl name)))
      else (name, False, []))"

definition setFlag ::
    "(string \<Rightarrow> int option) \<Rightarrow> flagValues \<Rightarrow> string \<Rightarrow> string \<Rightarrow> flagError + flagValues" where
  "setFlag atoi fl name v =
     (if name = ''t'' then
        (case atoi v of
           None \<Rightarrow> Inl ErrFailf
         | Some n \<Rightarrow> Inr (fl\<lparr>threads := n\<rparr>))
      else Inr (fl\<lparr>compare := v\<rparr>))"

definition parseOne ::
    "(string \<Rightarrow> int option) \<Rightarrow> flagValues \<Rightarrow> string list
      \<Rightarrow> flagError + (bool \<times> flagValues \<times> string list)" where
  "parseOne atoi fl args =
     (case args of
        [] \<Rightarrow> Inr (False, fl, [])
      | s # rest \<Rightarrow>
          if length s < 2 \<or> s ! 0 \<noteq> CHR ''-'' then Inr (False, fl, args)
          else if s ! 1 = CHR ''-'' \<and> length s = 2 then Inr (False, fl, rest)
          else
            (let name = drop (if s ! 1 = CHR ''-'' then 2 else 1) s
             in if name = [] \<or> name ! 0 = CHR ''-'' \<or> name ! 0 = CHR ''='' then Inl ErrFailf
                else
                  (case splitValue name of
                     (name', hasValue, v) \<Rightarrow>
                       if name' \<noteq> ''t'' \<and> name' \<noteq> ''compare'' then
                         (if name' = ''help'' \<or> name' = ''h'' then Inl ErrHelp else Inl ErrFailf)
                       else if hasValue then
                         (case setFlag atoi fl name' v of
                            Inl e \<Rightarrow> Inl e
                          | Inr fl' \<Rightarrow> Inr (True, fl', rest))
                       else
                         (case rest of
                            [] \<Rightarrow> Inl ErrFailf
                          | v' # rest' \<Rightarrow>
                              (case setFlag atoi fl name' v' of
                                 Inl e \<Rightarrow> Inl e
                               | Inr fl' \<Rightarrow> Inr (True, fl', rest'))))))"

text \<open>
  \<open>flag.Parse\<close> repeats \<open>parseOne\<close> while it sees a flag. What is left when it stops
  are the positional arguments, \<open>flag.Args()\<close>. Every flag that is seen shortens the
  argument list, which is why the loop ends.
\<close>

function flagParse ::
    "(string \<Rightarrow> int option) \<Rightarrow> flagValues \<Rightarrow> string list
      \<Rightarrow> flagError + (flagValues \<times> string list)" where
  "flagParse atoi fl args =
     (case parseOne atoi fl args of
        Inl e \<Rightarrow> Inl e
      | Inr (seen, fl', args') \<Rightarrow>
          if seen \<and> length args' < length args then flagParse atoi fl' args'
          else Inr (fl', args'))"
  by pat_completeness auto
termination
  by (relation "measure (\<lambda>(atoi, fl, args). length args)") auto

record config =
  firstDir :: string
  secondDir :: string
  resultDir :: string
  workerCount :: int
  compareTool :: string

text \<open>
  What \<open>main\<close> decides from \<open>os.Args\<close>, the program name first. A flag error leaves
  through the flag package (\<open>ExitOnError\<close>); otherwise a length of \<open>os.Args\<close> other than
  4 prints the usage and exits with status 0, and a length of 4 starts the pipeline on
  \<open>os.Args[1]\<close>, \<open>os.Args[2]\<close> and \<open>os.Args[3]\<close>.
\<close>

datatype decision = FlagExit flagError | UsageExit nat | Proceed config

definition mainArgs :: "(string \<Rightarrow> int option) \<Rightarrow> int \<Rightarrow> string list \<Rightarrow> decision" where
  "mainArgs atoi numCPU args =
     (case flagParse atoi \<lparr>threads = numCPU, compare = ''compare''\<rparr> (drop 1 args) of
        Inl e \<Rightarrow> FlagExit e
      | Inr (fl, positional) \<Rightarrow>
          if length args \<noteq> 4 then UsageExit 0
          else Proceed \<lparr>firstDir = args ! 1, secondDir = args ! 2, resultDir = args ! 3,
                        workerCount = threads fl, compareTool = compare fl\<rparr>)"

text \<open>The positional arguments of an invocation, as the flag package counts them.\<close>

definition positionalArgs :: "(string \<Rightarrow> int option) \<Rightarrow> int \<Rightarrow> string list \<Rightarrow> string list option" where
  "positionalArgs atoi numCPU args =
     (case flagParse atoi \<lparr>threads = numCPU, compare = ''compare''\<rparr> (drop 1 args) of
        Inl e \<Rightarrow> None
      | Inr (fl, positional) \<Rightarrow> Some positional)"

section \<open>Observations used in the statements\<close>

text \<open>
  A raster image as the program meets it: the corner of its bounds is the origin, so
  that the far corner gives its width and height.
\<close>

definition atOrigin :: "Image \<Rightarrow> bool" where
  "atOrigin m \<longleftrightarrow>
     MinPt (Bounds m) = Pt 0 0 \<and> 0 \<le> X (MaxPt (Bounds m)) \<and> 0 \<le> Y (MaxPt (Bounds m))"



section \<open>Example inputs\<close>

definition red :: RGBA where
  "red = (255, 0, 0, 255)"

text \<open>
  \<open>in1/a.png\<close> and \<open>in2/a.png\<close> are 1 by 1; \<open>in1/b.png\<close> is 1 wide and 2 high while
  \<open>in2/b.png\<close> is 2 wide and 1 high with a red pixel in its second column;
  \<open>in2/c.png\<close> exists and is not a PNG image; \<open>in2/d.png\<close> is a directory.
\<close>

definition exampleFiles :: fs where
  "exampleFiles =
     [''in1/a.png'' \<mapsto> PngFile 1 1 (\<lambda>x y. red),
      ''in2/a.png'' \<mapsto> PngFile 1 1 (\<lambda>x y. zeroRGBA),
      ''in1/b.png'' \<mapsto> PngFile 1 2 (\<lambda>x y. zeroRGBA),
      ''in2/b.png'' \<mapsto> PngFile 2 1 (\<lambda>x y. if x = 1 \<and> y = 0 then red else zeroRGBA),
      ''in1/c.png'' \<mapsto> PngFile 1 1 (\<lambda>x y. red),
      ''in2/c.png'' \<mapsto> OtherFile,
      ''in1/d.png'' \<mapsto> PngFile 1 1 (\<lambda>x y. red),
      ''in2/d.png'' \<mapsto> Dir]"

text \<open>A shell in which the comparison tool cannot be found: nothing is written, the exit status is not zero.\<close>

definition unreachableTool :: shell where
  "unreachableTool cmd files = (files, False)"

definition jobFor :: "string \<Rightarrow> DiffJob" where
  "jobFor name =
     \<lparr>inFile1 = ''in1/'' @ name, inFile2 = ''in2/'' @ name,
      outFile = ''out/'' @ name, comparePath = ''compare''\<rparr>"

text \<open>A directory listing and a path join for the examples.\<close>

definition slashJoin :: "string \<Rightarrow> string \<Rightarrow> string" where
  "slashJoin dir name = dir @ ''/'' @ name"

definition entry :: "string \<Rightarrow> FileInfo" where
  "entry name = \<lparr>Name = name, IsDir = False\<rparr>"

definition exampleReadDir :: "string \<Rightarrow> FileInfo list option" where
  "exampleReadDir dir =
     (if dir = ''in1''
      then Some [entry ''a.png'', entry ''notes.txt'', entry ''b.png'', entry ''c.PNG'',
                 entry ''png'', \<lparr>Name = ''sub.png'', IsDir = True\<rparr>]
      else None)"

definition exampleJobs :: "DiffJob list" where
  "exampleJobs = [jobFor ''a.png'', jobFor ''b.png'', jobFor ''d.png'']"

section \<open>The pipeline\<close>

text \<open>
  \<open>DiffJobTask\<close> is \<open>func(DiffJob) *DiffJob\<close>: a task returns a job, returns nil, or
  panics. The pipeline treats a task as a function of the job alone.
\<close>

type_synonym task = "DiffJob \<Rightarrow> failure + DiffJob option"

text \<open>
  Where a goroutine of \<open>performDiffJobTask\<close> stands: at the receive of its \<open>range\<close>
  loop, inside the call of the task, at the send of the result, or past the
  \<open>close\<close> of its output channel. The goroutines of \<open>fanDiffJobsIn\<close> have the same
  places but for the task, and \<open>Finished\<close> is for them past \<open>wg.Done()\<close>.
\<close>

datatype stage = Receiving | Running DiffJob | Sending DiffJob | Finished

text \<open>
  The goroutines that \<open>main\<close> starts and the channels between them. All channels are
  unbuffered, so a channel holds nothing: a value passes when the sender stands at its
  send and the receiver at its receive.
  \<^item> \<open>source\<close>: the jobs the generator has still to send on \<open>chIn\<close>;
  \<^item> \<open>chInClosed\<close>: the generator has closed \<open>chIn\<close>;
  \<^item> \<open>filterStage\<close>: the goroutine of \<open>performDiffJobTask(filterDiffJobs, chIn)\<close>,
    which owns \<open>chFiltered\<close>;
  \<^item> \<open>workers\<close>: the goroutines of \<open>fanOut\<close>, all receiving from \<open>chFiltered\<close>, worker
    \<open>i\<close> owning the \<open>i\<close>-th fanned channel;
  \<^item> \<open>mergers\<close>: the goroutines of \<open>fanDiffJobsIn\<close>, the \<open>i\<close>-th forwarding the
    \<open>i\<close>-th fanned channel to the combined channel;
  \<^item> \<open>chOutClosed\<close>: the combined channel is closed, which the goroutine waiting on the
    wait group does once every merger is done;
  \<^item> \<open>emitted\<close>: the jobs the loop of \<open>main\<close> has received, and printed, so far;
  \<^item> \<open>mainDone\<close>: the loop of \<open>main\<close> has ended, and with it the process;
  \<^item> \<open>crashed\<close>: a panic or \<open>log.Fatal\<close> has ended the process.
\<close>

record pipeline =
  source :: "DiffJob list"
  chInClosed :: bool
  filterStage :: stage
  workers :: "stage list"
  mergers :: "stage list"
  chOutClosed :: bool
  emitted :: "DiffJob list"
  mainDone :: bool
  crashed :: bool

definition live :: "pipeline \<Rightarrow> bool" where
  "live s \<longleftrightarrow> \<not> crashed s \<and> \<not> mainDone s"

text \<open>
  \<open>if job := task(grabJob); job != nil { chOut <- *job }\<close>: after the task the
  goroutine stands at the send, or back at the receive when the task returned nil.
  \<open>None\<close> is a panic of the task.
\<close>

definition afterTask :: "task \<Rightarrow> DiffJob \<Rightarrow> stage option" where
  "afterTask t j =
     (case t j of
        Inl e \<Rightarrow> None
      | Inr None \<Rightarrow> Some Receiving
      | Inr (Some j') \<Rightarrow> Some (Sending j'))"

text \<open>
  One step of one goroutine, or of two that meet on a channel. The scheduler is free
  to pick any step that is possible.
\<close>

inductive step :: "task \<Rightarrow> task \<Rightarrow> pipeline \<Rightarrow> pipeline \<Rightarrow> bool"
  for ftask dtask :: task where
  generatorSend:
    "\<lbrakk>live s; source s = j # js; filterStage s = Receiving\<rbrakk>
     \<Longrightarrow> step ftask dtask s (s\<lparr>source := js, filterStage := Running j\<rparr>)"
| generatorClose:
    "\<lbrakk>live s; source s = []; \<not> chInClosed s\<rbrakk>
     \<Longrightarrow> step ftask dtask s (s\<lparr>chInClosed := True\<rparr>)"
| filterTask:
    "\<lbrakk>live s; filterStage s = Running j; afterTask ftask j = Some st\<rbrakk>
     \<Longrightarrow> step ftask dtask s (s\<lparr>filterStage := st\<rparr>)"
| filterPanic:
    "\<lbrakk>live s; filterStage s = Running j; afterTask ftask j = None\<rbrakk>
     \<Longrightarrow> step ftask dtask s (s\<lparr>crashed := True\<rparr>)"
| filterSend:
    "\<lbrakk>live s; filterStage s = Sending j; i < length (workers s); workers s ! i = Receiving\<rbrakk>
     \<Longrightarrow> step ftask dtask s
           (s\<lparr>filterStage := Receiving, workers := (workers s)[i := Running j]\<rparr>)"
| filterClose:
    "\<lbrakk>live s; filterStage s = Receiving; chInClosed s\<rbrakk>
     \<Longrightarrow> step ftask dtask s (s\<lparr>filterStage := Finished\<rparr>)"
| workerTask:
    "\<lbrakk>live s; i < length (workers s); workers s ! i = Running j; afterTask dtask j = Some st\<rbrakk>
     \<Longrightarrow> step ftask dtask s (s\<lparr>workers := (workers s)[i := st]\<rparr>)"
| workerPanic:
    "\<lbrakk>live s; i < length (workers s); workers s ! i = Running j; afterTask dtask j = None\<rbrakk>
     \<Longrightarrow> step ftask dtask s (s\<lparr>crashed := True\<rparr>)"
| workerSend:
    "\<lbrakk>live s; i < length (workers s); i < length (mergers s);
      workers s ! i = Sending j; mergers s ! i = Receiving\<rbrakk>
     \<Longrightarrow> step ftask dtask s
           (s\<lparr>workers := (workers s)[i := Receiving], mergers := (mergers s)[i := Sending j]\<rparr>)"
| workerClose:
    "\<lbrakk>live s; i < length (workers s); workers s ! i = Receiving; filterStage s = Finished\<rbrakk>
     \<Longrightarrow> step ftask dtask s (s\<lparr>workers := (workers s)[i := Finished]\<rparr>)"
| mergerSend:
    "\<lbrakk>live s; i < length (mergers s); mergers s ! i = Sending j\<rbrakk>
     \<Longrightarrow> step ftask dtask s
           (s\<lparr>mergers := (mergers s)[i := Receiving], emitted := emitted s @ [j]\<rparr>)"
| mergerDone:
    "\<lbrakk>live s; i < length (mergers s); i < length (workers s);
      mergers s ! i = Receiving; workers s ! i = Finished\<rbrakk>
     \<Longrightarrow> step ftask dtask s (s\<lparr>mergers := (mergers s)[i := Finished]\<rparr>)"
| closeCombined:
    "\<lbrakk>live s; \<forall>m \<in> set (mergers s). m = Finished; \<not> chOutClosed s\<rbrakk>
     \<Longrightarrow> step ftask dtask s (s\<lparr>chOutClosed := True\<rparr>)"
| mainEnd:
    "\<lbrakk>live s; chOutClosed s\<rbrakk>
     \<Longrightarrow> step ftask dtask s (s\<lparr>mainDone := True\<rparr>)"

text \<open>
  The state in which \<open>main\<close> enters its loop: \<open>fanOut\<close> has started as many workers as its
  \<open>count\<close> says (none when that is not positive) and \<open>fanDiffJobsIn\<close> one merger for each. The generator
  holds the jobs of the listing, or has ended the process when the listing failed.
\<close>

definition startPipeline :: "int \<Rightarrow> failure + DiffJob list \<Rightarrow> pipeline" where
  "startPipeline cnt gen =
     \<lparr>source = (case gen of Inl e \<Rightarrow> [] | Inr jobs \<Rightarrow> jobs),
      chInClosed = False,
      filterStage = Receiving,
      workers = replicate (nat cnt) Receiving,
      mergers = replicate (nat cnt) Receiving,
      chOutClosed = False,
      emitted = [],
      mainDone = False,
      crashed = (case gen of Inl e \<Rightarrow> True | Inr jobs \<Rightarrow> False)\<rparr>"

definition reachable :: "task \<Rightarrow> task \<Rightarrow> int \<Rightarrow> failure + DiffJob list \<Rightarrow> pipeline \<Rightarrow> bool" where
  "reachable ftask dtask cnt gen s \<longleftrightarrow> (step ftask dtask)\<^sup>*\<^sup>* (startPipeline cnt gen) s"

subsection \<open>What a job yields, and what is still under way\<close>

text \<open>The jobs a task hands on for one job: the job it returns, or none.\<close>

definition acks :: "task \<Rightarrow> DiffJob \<Rightarrow> DiffJob list" where
  "acks t j = (case t j of Inr (Some j') \<Rightarrow> [j'] | _ \<Rightarrow> [])"

definition through :: "task \<Rightarrow> task \<Rightarrow> DiffJob \<Rightarrow> DiffJob list" where
  "through ftask dtask j = concat (map (acks dtask) (acks ftask j))"

fun inFlight :: "(DiffJob \<Rightarrow> DiffJob list) \<Rightarrow> (DiffJob \<Rightarrow> DiffJob list) \<Rightarrow> stage \<Rightarrow> DiffJob multiset" where
  "inFlight run send Receiving = {#}"
| "inFlight run send (Running j) = mset (run j)"
| "inFlight run send (Sending j) = mset (send j)"
| "inFlight run send Finished = {#}"

text \<open>
  The jobs emitted so far together with those that the jobs under way and the jobs
  still at the generator will yield if no task panics.
\<close>

definition outcome :: "task \<Rightarrow> task \<Rightarrow> pipeline \<Rightarrow> DiffJob multiset" where
  "outcome ftask dtask s =
     mset (emitted s)
     + sum_list (map (inFlight (\<lambda>j. []) (\<lambda>j. [j])) (mergers s))
     + sum_list (map (inFlight (acks dtask) (\<lambda>j. [j])) (workers s))
     + inFlight (through ftask dtask) (acks dtask) (filterStage s)
     + mset (concat (map (through ftask dtask) (source s)))"

text \<open>How the places of the goroutines and the state of the channels hang together.\<close>

definition wellFormed :: "nat \<Rightarrow> pipeline \<Rightarrow> bool" where
  "wellFormed n s \<longleftrightarrow>
     length (workers s) = n \<and> length (mergers s) = n
     \<and> (chInClosed s \<longrightarrow> source s = [])
     \<and> (filterStage s = Finished \<longrightarrow> chInClosed s)
     \<and> (\<forall>i < n. workers s ! i = Finished \<longrightarrow> filterStage s = Finished)
     \<and> (\<forall>i < n. mergers s ! i = Finished \<longrightarrow> workers s ! i = Finished)
     \<and> (\<forall>i < n. \<forall>j. mergers s ! i \<noteq> Running j)
     \<and> (chOutClosed s \<longrightarrow> (\<forall>i < n. mergers s ! i = Finished))
     \<and> (mainDone s \<longrightarrow> chOutClosed s)"

subsection \<open>A measure that every step lowers\<close>

fun stageWeight :: "nat \<Rightarrow> stage \<Rightarrow> nat" where
  "stageWeight k Finished = 0"
| "stageWeight k Receiving = 1"
| "stageWeight k (Sending j) = k"
| "stageWeight k (Running j) = Suc k"

definition workLeft :: "pipeline \<Rightarrow> nat" where
  "workLeft s =
     6 * length (source s)
     + stageWeight 5 (filterStage s)
     + sum_list (map (stageWeight 3) (workers s))
     + sum_list (map (stageWeight 2) (mergers s))
     + (if chInClosed s then 0 else 1)
     + (if chOutClosed s then 0 else 1)
     + (if mainDone s then 0 else 1)
     + (if crashed s then 0 else 1)"

subsection \<open>One scheduler\<close>

text \<open>
  A scheduler that always takes the first possible step of a fixed order, from the
  loop of \<open>main\<close> back to the generator. It makes the pipeline executable.
\<close>

fun firstIndex :: "('a \<Rightarrow> bool) \<Rightarrow> 'a list \<Rightarrow> nat option" where
  "firstIndex P [] = None"
| "firstIndex P (x # xs) =
     (if P x then Some 0 else map_option Suc (firstIndex P xs))"

definition isRunning :: "stage \<Rightarrow> bool" where
  "isRunning st \<longleftrightarrow> (case st of Running j \<Rightarrow> True | _ \<Rightarrow> False)"

definition isSending :: "stage \<Rightarrow> bool" where
  "isSending st \<longleftrightarrow> (case st of Sending j \<Rightarrow> True | _ \<Rightarrow> False)"

definition orElse :: "'a option \<Rightarrow> 'a option \<Rightarrow> 'a option" where
  "orElse a b = (case a of Some x \<Rightarrow> Some x | None \<Rightarrow> b)"

definition mainStep :: "pipeline \<Rightarrow> pipeline option" where
  "mainStep s =
     (if chOutClosed s then Some (s\<lparr>mainDone := True\<rparr>)
      else if \<forall>m \<in> set (mergers s). m = Finished then Some (s\<lparr>chOutClosed := True\<rparr>)
      else None)"

definition mergerStep :: "pipeline \<Rightarrow> pipeline option" where
  "mergerStep s =
     orElse
       (case firstIndex isSending (mergers s) of
          None \<Rightarrow> None
        | Some i \<Rightarrow>
            (case mergers s ! i of
               Sending j \<Rightarrow> Some (s\<lparr>mergers := (mergers s)[i := Receiving],
                                     emitted := emitted s @ [j]\<rparr>)
             | _ \<Rightarrow> None))
       (case firstIndex (\<lambda>(w, m). w = Finished \<and> m = Receiving) (zip (workers s) (mergers s)) of
          None \<Rightarrow> None
        | Some i \<Rightarrow> Some (s\<lparr>mergers := (mergers s)[i := Finished]\<rparr>))"

definition workerStep :: "task \<Rightarrow> pipeline \<Rightarrow> pipeline option" where
  "workerStep dtask s =
     orElse
       (case firstIndex (\<lambda>(w, m). isSending w \<and> m = Receiving) (zip (workers s) (mergers s)) of
          None \<Rightarrow> None
        | Some i \<Rightarrow>
            (case workers s ! i of
               Sending j \<Rightarrow> Some (s\<lparr>workers := (workers s)[i := Receiving],
                                     mergers := (mergers s)[i := Sending j]\<rparr>)
             | _ \<Rightarrow> None))
       (orElse
          (case firstIndex isRunning (workers s) of
             None \<Rightarrow> None
           | Some i \<Rightarrow>
               (case workers s ! i of
                  Running j \<Rightarrow>
                    (case afterTask dtask j of
                       Some st \<Rightarrow> Some (s\<lparr>workers := (workers s)[i := st]\<rparr>)
                     | None \<Rightarrow> Some (s\<lparr>crashed := True\<rparr>))
                | _ \<Rightarrow> None))
          (if filterStage s = Finished then
             (case firstIndex (\<lambda>w. w = Receiving) (workers s) of
                None \<Rightarrow> None
              | Some i \<Rightarrow> Some (s\<lparr>workers := (workers s)[i := Finished]\<rparr>))
           else None))"

definition filterStep :: "task \<Rightarrow> pipeline \<Rightarrow> pipeline option" where
  "filterStep ftask s =
     (case filterStage s of
        Sending j \<Rightarrow>
          (case firstIndex (\<lambda>w. w = Receiving) (workers s) of
             None \<Rightarrow> None
           | Some i \<Rightarrow> Some (s\<lparr>filterStage := Receiving,
                                workers := (workers s)[i := Running j]\<rparr>))
      | Running j \<Rightarrow>
          (case afterTask ftask j of
             Some st \<Rightarrow> Some (s\<lparr>filterStage := st\<rparr>)
           | None \<Rightarrow> Some (s\<lparr>crashed := True\<rparr>))
      | Receiving \<Rightarrow>
          (case source s of
             j # js \<Rightarrow> Some (s\<lparr>source := js, filterStage := Running j\<rparr>)
           | [] \<Rightarrow>
               if chInClosed s then Some (s\<lparr>filterStage := Finished\<rparr>)
               else Some (s\<lparr>chInClosed := True\<rparr>))
      | Finished \<Rightarrow> None)"

definition advance :: "task \<Rightarrow> task \<Rightarrow> pipeline \<Rightarrow> pipeline option" where
  "advance ftask dtask s =
     (if \<not> live s then None
      else orElse (mainStep s)
             (orElse (mergerStep s)
                (orElse (workerStep dtask s) (filterStep ftask s))))"

fun runFor :: "nat \<Rightarrow> task \<Rightarrow> task \<Rightarrow> pipeline \<Rightarrow> pipeline" where
  "runFor 0 ftask dtask s = s"
| "runFor (Suc n) ftask dtask s =
     (case advance ftask dtask s of
        None \<Rightarrow> s
      | Some s' \<Rightarrow> runFor n ftask dtask s')"

subsection \<open>The tasks of main.go\<close>

text \<open>
  \<open>filterDiffJobs\<close> and \<open>diffFiles\<close> as tasks of the pipeline. Each is taken on the
  files as they are when the pipeline starts: the jobs of one listing have different
  names, and a worker writes only the output and the temporary file of its own job.
\<close>

definition filterTask :: "fs \<Rightarrow> task" where
  "filterTask files job = Inr (filterDiffJobs files job)"

definition diffTask :: "shell \<Rightarrow> fs \<Rightarrow> task" where
  "diffTask sh files job =
     (case diffFiles sh files job of
        Inl e \<Rightarrow> Inl e
      | Inr (files', result) \<Rightarrow> Inr result)"

text \<open>The jobs that can stand in the pipeline: those of the generator, and those the filter hands on.\<close>

definition handedOn :: "task \<Rightarrow> DiffJob list \<Rightarrow> DiffJob list" where
  "handedOn ftask jobs = concat (map (acks ftask) jobs)"

definition jobsKnown :: "task \<Rightarrow> DiffJob list \<Rightarrow> pipeline \<Rightarrow> bool" where
  "jobsKnown ftask jobs s \<longleftrightarrow>
     set (source s) \<subseteq> set jobs
     \<and> (\<forall>j. filterStage s = Running j \<longrightarrow> j \<in> set jobs)
     \<and> (\<forall>j. filterStage s = Sending j \<longrightarrow> j \<in> set (handedOn ftask jobs))
     \<and> (\<forall>i < length (workers s). \<forall>j. workers s ! i = Running j \<longrightarrow> j \<in> set (handedOn ftask jobs))"

subsection \<open>An example run\<close>

text \<open>
  A comparison tool that finds the two images different: it writes a 1 by 1 diff
  image to the path that ends its command line and exits with a status that is not
  zero, as ImageMagick's \<open>compare\<close> does for images that differ.
\<close>

definition differingTool :: shell where
  "differingTool cmd files =
     (files(rev (takeWhile (\<lambda>c. c \<noteq> CHR '' '') (rev cmd)) \<mapsto> PngFile 1 1 (\<lambda>x y. red)), False)"

definition exampleFilter :: task where
  "exampleFilter = filterTask exampleFiles"

definition exampleWorker :: task where
  "exampleWorker = diffTask differingTool exampleFiles"

section \<open>Properties of rectangles and drawing\<close>

lemma Empty_not_In: "Empty r \<Longrightarrow> \<not> In x y r"
  by (auto simp: In_def Empty_def)

lemma In_ZR: "\<not> In x y ZR"
  by (simp add: In_def ZR_def Pt_def)

lemma if_less_max: "(if (a::int) < c then c else a) = max a c"
  by (simp add: max_def)

lemma if_greater_min: "(if (b::int) > d then d else b) = min b d"
  by (simp add: min_def)

lemma In_Intersect: "In x y (Intersect r s) \<longleftrightarrow> In x y r \<and> In x y s"
proof -
  define r' where
    "r' = \<lparr>MinPt = Pt (max (X (MinPt r)) (X (MinPt s))) (max (Y (MinPt r)) (Y (MinPt s))),
           MaxPt = Pt (min (X (MaxPt r)) (X (MaxPt s))) (min (Y (MaxPt r)) (Y (MaxPt s)))\<rparr>"
  have i: "Intersect r s = (if Empty r' then ZR else r')"
    unfolding Intersect_def Let_def if_less_max if_greater_min r'_def ..
  have j: "In x y r' \<longleftrightarrow> In x y r \<and> In x y s"
    unfolding In_def r'_def Pt_def by auto
  show ?thesis
  proof (cases "Empty r'")
    case True
    with Empty_not_In [of r' x y] j show ?thesis by (simp add: i In_ZR)
  next
    case False
    with j show ?thesis by (simp add: i)
  qed
qed

lemma Bounds_Draw: "Bounds (Draw dst r src sp) = Bounds dst"
  by (simp add: Draw_def split: prod.splits)

lemma At_Draw:
  "At (Draw dst r src sp) x y =
     (if In x y r \<and> In x y (Bounds dst) \<and> In x y (Add (Bounds src) (SubPt (MinPt r) sp))
      then At src (X sp + (x - X (MinPt r))) (Y sp + (y - Y (MinPt r)))
      else At dst x y)"
proof -
  obtain r' sp' where c: "clip dst r src sp = (r', sp')"
    by (cases "clip dst r src sp")
  then have r': "r' = Intersect (Intersect r (Bounds dst)) (Add (Bounds src) (SubPt (MinPt r) sp))"
    and sp': "sp' = Pt (X sp + (X (MinPt r') - X (MinPt r))) (Y sp + (Y (MinPt r') - Y (MinPt r)))"
    by (auto simp: clip_def Let_def)
  have i: "In x y r' \<longleftrightarrow> In x y r \<and> In x y (Bounds dst) \<and> In x y (Add (Bounds src) (SubPt (MinPt r) sp))"
    by (simp add: r' In_Intersect)
  show ?thesis
  proof (cases "Empty r'")
    case True
    then have "\<not> In x y r'" by (rule Empty_not_In)
    with True c i show ?thesis by (auto simp: Draw_def)
  next
    case False
    with c i show ?thesis by (auto simp: Draw_def sp' Pt_def)
  qed
qed

lemma In_Add: "In x y (Add r p) \<longleftrightarrow> In (x - X p) (y - Y p) r"
  by (auto simp: In_def Add_def Pt_def)

lemma At_Draw_origin:
  assumes "MinPt (Bounds src) = Pt 0 0"
  shows "At (Draw dst (Bounds src) src (Pt 0 0)) x y =
     (if In x y (Bounds src) \<and> In x y (Bounds dst) then At src x y else At dst x y)"
  using assms by (simp add: At_Draw In_Add SubPt_def Pt_def)


lemma NewRGBA_Rect:
  "0 \<le> w \<Longrightarrow> 0 \<le> h \<Longrightarrow>
   NewRGBA (Rect 0 0 w h) = Inr \<lparr>Bounds = Rect 0 0 w h, At = (\<lambda>x y. zeroRGBA)\<rparr>"
  by (simp add: NewRGBA_def Rect_def Dx_def Dy_def Pt_def)

lemma decoded_Bounds:
  assumes "loadAndDecodePng files p = Some img"
  shows "\<exists>w h. 0 < w \<and> w < 2 ^ 31 \<and> 0 < h \<and> h < 2 ^ 31 \<and> Bounds img = Rect 0 0 w h"
proof -
  from assms obtain w h pix where f: "files p = Some (PngFile w h pix)"
    and ok: "\<not> (w = 0 \<or> h = 0 \<or> w \<ge> 2 ^ 31 \<or> h \<ge> 2 ^ 31)"
    and img: "img = \<lparr>Bounds = Rect 0 0 (int w) (int h), At = pix\<rparr>"
    by (auto simp: loadAndDecodePng_def png_Decode_def split: option.splits node.splits if_splits)
  from ok have "0 < int w \<and> int w < 2 ^ 31 \<and> 0 < int h \<and> int h < 2 ^ 31"
    by (simp add: not_le)
  with img show ?thesis
    by (intro exI [of _ "int w"] exI [of _ "int h"]) simp
qed

lemma Rect_pos:
  "0 \<le> w \<Longrightarrow> 0 \<le> h \<Longrightarrow> Rect 0 0 w h = \<lparr>MinPt = Pt 0 0, MaxPt = Pt w h\<rparr>"
  by (simp add: Rect_def)

lemma decoded_atOrigin:
  assumes "loadAndDecodePng files p = Some img"
  shows "atOrigin img"
proof -
  from decoded_Bounds [OF assms] obtain w h where "0 < w" "0 < h" "Bounds img = Rect 0 0 w h"
    by blast
  then show ?thesis by (simp add: atOrigin_def Rect_pos Pt_def)
qed

lemma example_loads:
  "loadAndDecodePng exampleFiles ''in1/a.png'' = Some \<lparr>Bounds = Rect 0 0 1 1, At = (\<lambda>x y. red)\<rparr>"
  "loadAndDecodePng exampleFiles ''in2/a.png'' = Some \<lparr>Bounds = Rect 0 0 1 1, At = (\<lambda>x y. zeroRGBA)\<rparr>"
  "loadAndDecodePng exampleFiles ''in1/b.png'' = Some \<lparr>Bounds = Rect 0 0 1 2, At = (\<lambda>x y. zeroRGBA)\<rparr>"
  "loadAndDecodePng exampleFiles ''in2/b.png'' =
     Some \<lparr>Bounds = Rect 0 0 2 1, At = (\<lambda>x y. if x = 1 \<and> y = 0 then red else zeroRGBA)\<rparr>"
  "loadAndDecodePng exampleFiles ''in1/c.png'' = Some \<lparr>Bounds = Rect 0 0 1 1, At = (\<lambda>x y. red)\<rparr>"
  "loadAndDecodePng exampleFiles ''in2/c.png'' = None"
  by (simp_all add: loadAndDecodePng_def exampleFiles_def png_Decode_def)

lemma example_absent:
  "exampleFiles ''out/a.png'' = None" "exampleFiles ''out/a.pngtmp'' = None"
  "exampleFiles ''out/b.pngtmp'' = None"
  by (simp_all add: exampleFiles_def)

section \<open>The compositor\<close>



section \<open>Common-size normalization\<close>

text \<open>
  C3. When both inputs decode and have the same height, common-size normalization
  returns the two given paths, first input first, and leaves every file as it was: no
  temporary file appears.
\<close>

theorem commonSize_equal_height:
  assumes "loadAndDecodePng files in1 = Some img1"
    and "loadAndDecodePng files in2 = Some img2"
    and "Dy (Bounds img1) = Dy (Bounds img2)"
  shows "commonSizeImageLengths files in1 in2 out = Inr (files, in1, in2)"
proof -
  have o1: "Y (MinPt (Bounds img1)) = 0"
    using assms(1)
    by (auto simp: loadAndDecodePng_def png_Decode_def Rect_def Pt_def
        split: option.splits node.splits if_splits)
  have o2: "Y (MinPt (Bounds img2)) = 0"
    using assms(2)
    by (auto simp: loadAndDecodePng_def png_Decode_def Rect_def Pt_def
        split: option.splits node.splits if_splits)
  from o1 o2 assms(3) have "Y (MaxPt (Bounds img1)) = Y (MaxPt (Bounds img2))"
    by (simp add: Dy_def)
  with assms(1,2) show ?thesis
    by (simp add: commonSizeImageLengths_def)
qed

theorem commonSize_equal_height_witness:
  "commonSizeImageLengths exampleFiles ''in1/a.png'' ''in2/a.png'' ''out/a.pngtmp''
     = Inr (exampleFiles, ''in1/a.png'', ''in2/a.png'')"
proof -
  have a: "loadAndDecodePng exampleFiles ''in1/a.png''
             = Some \<lparr>Bounds = Rect 0 0 1 1, At = (\<lambda>x y. red)\<rparr>"
    by (simp add: loadAndDecodePng_def exampleFiles_def png_Decode_def)
  have b: "loadAndDecodePng exampleFiles ''in2/a.png''
             = Some \<lparr>Bounds = Rect 0 0 1 1, At = (\<lambda>x y. zeroRGBA)\<rparr>"
    by (simp add: loadAndDecodePng_def exampleFiles_def png_Decode_def)
  show ?thesis
    using commonSize_equal_height [OF a b] by simp
qed

lemma commonSize_first_taller:
  assumes "loadAndDecodePng files in1 = Some img1"
    and "loadAndDecodePng files in2 = Some img2"
    and "Dy (Bounds img1) > Dy (Bounds img2)"
  shows "commonSizeImageLengths files in1 in2 out =
     Inr (createAndEncode files out
            (Draw \<lparr>Bounds = Bounds img1, At = (\<lambda>x y. zeroRGBA)\<rparr> (Bounds img2) img2 (Pt 0 0)),
          in1, out)"
proof -
  from decoded_atOrigin [OF assms(1)] decoded_atOrigin [OF assms(2)] assms(3)
  have "Y (MaxPt (Bounds img1)) > Y (MaxPt (Bounds img2))"
    and "NewRGBA (Bounds img1) = Inr \<lparr>Bounds = Bounds img1, At = (\<lambda>x y. zeroRGBA)\<rparr>"
    by (simp_all add: atOrigin_def Dy_def Dx_def Pt_def NewRGBA_def)
  with assms(1,2) show ?thesis
    by (simp add: commonSizeImageLengths_def resizeImage_def)
qed


text \<open>The image read back from the temporary file after padding.\<close>

lemma load_padded:
  assumes tall: "loadAndDecodePng files pt = Some tall"
    and short: "loadAndDecodePng files ps = Some short"
    and out: "files out \<noteq> Some Dir"
  shows "loadAndDecodePng
           (createAndEncode files out
              (Draw \<lparr>Bounds = Bounds tall, At = (\<lambda>x y. zeroRGBA)\<rparr> (Bounds short) short (Pt 0 0)))
           out =
         Some \<lparr>Bounds = Bounds tall,
               At = (\<lambda>x y. if In x y (Bounds short) \<and> In x y (Bounds tall)
                             then At short x y else zeroRGBA)\<rparr>"
proof -
  from decoded_Bounds [OF tall] obtain w h where
    wh: "0 < w" "w < 2 ^ 31" "0 < h" "h < 2 ^ 31" and bt: "Bounds tall = Rect 0 0 w h"
    by blast
  have r: "Rect 0 0 w h = \<lparr>MinPt = Pt 0 0, MaxPt = Pt w h\<rparr>"
    using wh by (simp add: Rect_pos)
  have os: "MinPt (Bounds short) = Pt 0 0"
    using decoded_atOrigin [OF short] by (simp add: atOrigin_def)
  define m where
    "m = Draw \<lparr>Bounds = Bounds tall, At = (\<lambda>x y. zeroRGBA)\<rparr> (Bounds short) short (Pt 0 0)"
  have bm: "Bounds m = Rect 0 0 w h"
    by (simp add: m_def Bounds_Draw bt)
  have am: "At m x y = (if In x y (Bounds short) \<and> In x y (Bounds tall)
                        then At short x y else zeroRGBA)" for x y
    by (simp add: m_def At_Draw_origin [OF os])
  have d: "Dx (Bounds m) = w" "Dy (Bounds m) = h" "X (MinPt (Bounds m)) = 0" "Y (MinPt (Bounds m)) = 0"
    by (simp_all add: bm r Dx_def Dy_def Pt_def)
  have w32: "w < 2 ^ 32" "h < 2 ^ 32"
    using wh by simp_all
  have enc: "png_Encode m =
      PngFile (nat w) (nat h)
        (\<lambda>x y. if In x y (Bounds short) \<and> In x y (Bounds tall) then At short x y else zeroRGBA)"
    using wh w32
    by (auto simp: png_Encode_def Let_def d am bt r In_def Pt_def intro!: ext)
  have "createAndEncode files out m out = Some (png_Encode m)"
    using out by (simp add: createAndEncode_def split: option.splits node.splits)
  moreover have "0 < nat w" "nat w < 2 ^ 31" "0 < nat h" "nat h < 2 ^ 31"
    using wh by simp_all
  ultimately show ?thesis
    unfolding m_def [symmetric]
    by (simp add: loadAndDecodePng_def enc png_Decode_def bt not_le [symmetric])
qed

lemma createAndEncode_other: "p \<noteq> out \<Longrightarrow> createAndEncode files out m p = files p"
  by (simp add: createAndEncode_def split: option.splits node.splits)




section \<open>The filter stage\<close>

text \<open>
  C5. The filter stage returns the job it was given, all four fields as they were,
  exactly when both input paths name something that exists and is not a directory; in
  every other case it returns no result.
\<close>

theorem filterDiffJobs_passes_iff:
  "(filterDiffJobs files job = Some job \<longleftrightarrow>
      (\<exists>f1 f2. files (inFile1 job) = Some f1 \<and> f1 \<noteq> Dir
             \<and> files (inFile2 job) = Some f2 \<and> f2 \<noteq> Dir))
   \<and> (filterDiffJobs files job \<noteq> Some job \<longrightarrow> filterDiffJobs files job = None)"
  by (auto simp: filterDiffJobs_def fileExists_def split: option.splits node.splits)

theorem filterDiffJobs_passes_iff_witness:
  "filterDiffJobs exampleFiles (jobFor ''a.png'') = Some (jobFor ''a.png'')
   \<and> filterDiffJobs exampleFiles (jobFor ''d.png'') = None
   \<and> filterDiffJobs exampleFiles (jobFor ''e.png'') = None"
proof -
  have a: "\<exists>f1 f2. exampleFiles (inFile1 (jobFor ''a.png'')) = Some f1 \<and> f1 \<noteq> Dir
             \<and> exampleFiles (inFile2 (jobFor ''a.png'')) = Some f2 \<and> f2 \<noteq> Dir"
    by (simp add: exampleFiles_def jobFor_def)
  have d: "\<not> (\<exists>f1 f2. exampleFiles (inFile1 (jobFor ''d.png'')) = Some f1 \<and> f1 \<noteq> Dir
             \<and> exampleFiles (inFile2 (jobFor ''d.png'')) = Some f2 \<and> f2 \<noteq> Dir)"
    by (simp add: exampleFiles_def jobFor_def)
  have e: "\<not> (\<exists>f1 f2. exampleFiles (inFile1 (jobFor ''e.png'')) = Some f1 \<and> f1 \<noteq> Dir
             \<and> exampleFiles (inFile2 (jobFor ''e.png'')) = Some f2 \<and> f2 \<noteq> Dir)"
    by (simp add: exampleFiles_def jobFor_def)
  show ?thesis
    using a d e filterDiffJobs_passes_iff [of exampleFiles "jobFor ''a.png''"]
      filterDiffJobs_passes_iff [of exampleFiles "jobFor ''d.png''"]
      filterDiffJobs_passes_iff [of exampleFiles "jobFor ''e.png''"]
    by blast
qed

section \<open>The job source\<close>

lemma sendJobs_map_filter:
  "sendJobs Join cmp inDir1 inDir2 outDir files =
     map (\<lambda>file. \<lparr>inFile1 = Join inDir1 (Name file), inFile2 = Join inDir2 (Name file),
                     outFile = Join outDir (Name file), comparePath = cmp\<rparr>)
       (filter (\<lambda>file. Ext (Name file) = ''.png'') files)"
  by (induction files) simp_all

lemma Ext_examples:
  "Ext ''a.png'' = ''.png''" "Ext ''notes.txt'' = ''.txt''" "Ext ''b.png'' = ''.png''"
  "Ext ''c.PNG'' = ''.PNG''" "Ext ''png'' = []" "Ext ''sub.png'' = ''.png''"
  by (simp_all add: Ext_def)

text \<open>
  C6. When directory 1 can be listed, the generator sends exactly the jobs of the
  entries whose extension is \<open>.png\<close>, one for each such entry and in the order of the
  listing, with the first input the entry's name joined to directory 1, the second
  input the same name joined to directory 2 and the output the same name joined to
  the output directory. An entry counts whatever its kind. When directory 1 cannot be
  listed the generator ends the process through \<open>log.Fatal\<close>. Nothing but the listing
  of directory 1 is consulted: two worlds that list directory 1 alike give the same
  jobs, whatever directory 2 and the output directory hold.
\<close>

theorem grabJobChannelGenerator_jobs:
  "(ReadDir inDir1 = Some files \<longrightarrow>
      grabJobChannelGenerator Join ReadDir cmp inDir1 inDir2 outDir =
        Inr (map (\<lambda>file. \<lparr>inFile1 = Join inDir1 (Name file), inFile2 = Join inDir2 (Name file),
                             outFile = Join outDir (Name file), comparePath = cmp\<rparr>)
               (filter (\<lambda>file. Ext (Name file) = ''.png'') files)))
   \<and> (ReadDir inDir1 = None \<longrightarrow>
        grabJobChannelGenerator Join ReadDir cmp inDir1 inDir2 outDir = Inl LogFatal)
   \<and> (ReadDir' inDir1 = ReadDir inDir1 \<longrightarrow>
        grabJobChannelGenerator Join ReadDir' cmp inDir1 inDir2 outDir =
        grabJobChannelGenerator Join ReadDir cmp inDir1 inDir2 outDir)"
  by (simp add: grabJobChannelGenerator_def sendJobs_map_filter)

theorem grabJobChannelGenerator_jobs_witness:
  "grabJobChannelGenerator slashJoin exampleReadDir ''compare'' ''in1'' ''in2'' ''out'' =
     Inr [jobFor ''a.png'', jobFor ''b.png'', jobFor ''sub.png'']
   \<and> grabJobChannelGenerator slashJoin exampleReadDir ''compare'' ''missing'' ''in2'' ''out'' =
     Inl LogFatal
   \<and> grabJobChannelGenerator slashJoin (\<lambda>dir. if dir = ''in2'' then Some [] else exampleReadDir dir)
        ''compare'' ''in1'' ''in2'' ''out'' =
     grabJobChannelGenerator slashJoin exampleReadDir ''compare'' ''in1'' ''in2'' ''out''"
proof -
  have l: "exampleReadDir ''in1'' =
      Some [entry ''a.png'', entry ''notes.txt'', entry ''b.png'', entry ''c.PNG'',
            entry ''png'', \<lparr>Name = ''sub.png'', IsDir = True\<rparr>]"
    and m: "exampleReadDir ''missing'' = None"
    and s: "(\<lambda>dir. if dir = ''in2'' then Some [] else exampleReadDir dir) ''in1'' = exampleReadDir ''in1''"
    by (simp_all add: exampleReadDir_def)
  show ?thesis
    using l m s
      grabJobChannelGenerator_jobs [of exampleReadDir "''in1''" _ slashJoin "''compare''" "''in2''" "''out''"
        "\<lambda>dir. if dir = ''in2'' then Some [] else exampleReadDir dir"]
      grabJobChannelGenerator_jobs [of exampleReadDir "''missing''" _ slashJoin "''compare''" "''in2''" "''out''"
        exampleReadDir]
    by (simp add: Ext_examples jobFor_def slashJoin_def entry_def)
qed

section \<open>The diff worker\<close>

text \<open>
  C1, evaluated where it fails. With two inputs that decode and a comparison tool that
  cannot be reached, no diff image exists; \<open>loadAndDecodePng\<close> returns the nil image for
  it and \<open>combineImages\<close> calls \<open>Bounds()\<close> on that nil image. With a second input
  that exists and is not a PNG image, the same happens earlier, in
  \<open>commonSizeImageLengths\<close>, whatever the tool does. In both cases the call ends in a
  nil-pointer panic, which in Go ends the whole process, and not in a composite made
  from a blank image.
\<close>

theorem compareFiles_panics:
  "compareFiles unreachableTool exampleFiles ''compare'' ''in1/a.png'' ''in2/a.png'' ''out/a.png''
     = Inl NilPointerDereference
   \<and> compareFiles sh exampleFiles ''compare'' ''in1/c.png'' ''in2/c.png'' ''out/c.png''
     = Inl NilPointerDereference"
proof -
  have n: "commonSizeImageLengths exampleFiles ''in1/a.png'' ''in2/a.png'' ''out/a.pngtmp''
             = Inr (exampleFiles, ''in1/a.png'', ''in2/a.png'')"
    by (simp add: commonSizeImageLengths_def example_loads)
  have d: "loadAndDecodePng exampleFiles ''out/a.png'' = None"
    by (simp add: loadAndDecodePng_def example_absent)
  have c: "commonSizeImageLengths exampleFiles ''in1/c.png'' ''in2/c.png'' ''out/c.pngtmp''
             = Inl NilPointerDereference"
    by (simp add: commonSizeImageLengths_def example_loads)
  show ?thesis
    by (simp add: compareFiles_def n c d unreachableTool_def example_loads combineImages_def)
qed

text \<open>
  C7, evaluated where it fails. Both inputs of the job for \<open>a.png\<close> exist and
  decode, so the job passes the filter; with a comparison tool that exits with a
  non-zero status and writes nothing, \<open>diffFiles\<close> does not return the job: it ends
  in the nil-pointer panic.
\<close>

theorem diffFiles_no_acknowledgment:
  "diffFiles unreachableTool exampleFiles (jobFor ''a.png'') = Inl NilPointerDereference"
proof -
  have n: "commonSizeImageLengths exampleFiles ''in1/a.png'' ''in2/a.png'' ''out/a.pngtmp''
             = Inr (exampleFiles, ''in1/a.png'', ''in2/a.png'')"
    by (simp add: commonSizeImageLengths_def example_loads)
  have d: "loadAndDecodePng exampleFiles ''out/a.png'' = None"
    by (simp add: loadAndDecodePng_def example_absent)
  show ?thesis
    by (simp add: diffFiles_def jobFor_def compareFiles_def n d unreachableTool_def example_loads
        combineImages_def)
qed

section \<open>The command line\<close>

text \<open>A flag that \<open>parseOne\<close> sees shortens the arguments, so the test on the lengths in \<open>flagParse\<close> never stops the loop early.\<close>

lemma parseOne_shortens:
  "parseOne atoi fl args = Inr (True, fl', args') \<Longrightarrow> length args' < length args"
  by (auto simp: parseOne_def Let_def split: list.splits if_splits prod.splits sum.splits)

text \<open>
  C9, evaluated where it fails. \<open>main\<close> parses the flags and then tests the length of
  \<open>os.Args\<close>, flags included, in the place of the positional arguments. An invocation
  with \<open>-compare cmp\<close> and the three directories has three positional arguments and
  yet prints the usage and exits with status 0; an invocation with \<open>-compare=cmp\<close> and
  two directories has two positional arguments and yet proceeds, with the flag taken
  as the first directory.
\<close>

theorem mainArgs_ignores_flags:
  "positionalArgs atoi numCPU [''idiff'', ''-compare'', ''cmp'', ''d1'', ''d2'', ''out'']
     = Some [''d1'', ''d2'', ''out'']
   \<and> mainArgs atoi numCPU [''idiff'', ''-compare'', ''cmp'', ''d1'', ''d2'', ''out''] = UsageExit 0
   \<and> positionalArgs atoi numCPU [''idiff'', ''-compare=cmp'', ''d1'', ''d2''] = Some [''d1'', ''d2'']
   \<and> mainArgs atoi numCPU [''idiff'', ''-compare=cmp'', ''d1'', ''d2''] =
       Proceed \<lparr>firstDir = ''-compare=cmp'', secondDir = ''d1'', resultDir = ''d2'',
                workerCount = numCPU, compareTool = ''cmp''\<rparr>"
  by (simp add: positionalArgs_def mainArgs_def parseOne_def splitValue_def setFlag_def)

section \<open>The pipeline: invariants\<close>

lemma update_split:
  assumes "i < length xs" and "xs ! i = old"
  obtains before after where "xs = before @ old # after"
    and "\<And>x. xs[i := x] = before @ x # after"
proof
  show "xs = take i xs @ old # drop (Suc i) xs"
    using id_take_nth_drop [OF assms(1)] assms(2) by simp
  show "xs[i := x] = take i xs @ x # drop (Suc i) xs" for x
    using assms by (simp add: upd_conv_take_nth_drop)
qed

lemma afterTask_acks:
  "afterTask t j = Some st \<Longrightarrow> inFlight run (\<lambda>j. [j]) st = mset (acks t j)"
  by (auto simp: afterTask_def acks_def split: sum.splits option.splits)

lemma afterTask_through:
  "afterTask ftask j = Some st \<Longrightarrow>
   inFlight run (acks dtask) st = mset (through ftask dtask j)"
  by (auto simp: afterTask_def acks_def through_def split: sum.splits option.splits)

lemma step_outcome:
  assumes "step ftask dtask s s'"
  shows "outcome ftask dtask s' = outcome ftask dtask s"
  using assms
proof cases
  case (generatorSend j js)
  then show ?thesis by (simp add: outcome_def)
next
  case generatorClose
  then show ?thesis by (simp add: outcome_def)
next
  case (filterTask j st)
  then show ?thesis
    by (simp add: outcome_def afterTask_through)
next
  case (filterPanic j)
  then show ?thesis by (simp add: outcome_def)
next
  case (filterSend j i)
  from update_split [OF filterSend(4,5)] obtain before after
    where "workers s = before @ Receiving # after"
      and "\<And>x. (workers s)[i := x] = before @ x # after" by blast
  with filterSend(1,3) show ?thesis
    by (simp add: outcome_def)
next
  case filterClose
  then show ?thesis by (simp add: outcome_def)
next
  case (workerTask i j st)
  from update_split [OF workerTask(3,4)] obtain before after
    where "workers s = before @ Running j # after"
      and "\<And>x. (workers s)[i := x] = before @ x # after" by blast
  with workerTask(1) afterTask_acks [OF workerTask(5), of "acks dtask"] show ?thesis
    by (simp add: outcome_def)
next
  case (workerPanic i j)
  then show ?thesis by (simp add: outcome_def)
next
  case (workerSend i j)
  from update_split [OF workerSend(3,5)] obtain before after
    where w: "workers s = before @ Sending j # after"
      "\<And>x. (workers s)[i := x] = before @ x # after" by blast
  from update_split [OF workerSend(4,6)] obtain before' after'
    where m: "mergers s = before' @ Receiving # after'"
      "\<And>x. (mergers s)[i := x] = before' @ x # after'" by blast
  from workerSend(1) w m show ?thesis
    by (simp add: outcome_def)
next
  case (workerClose i)
  from update_split [OF workerClose(3,4)] obtain before after
    where "workers s = before @ Receiving # after"
      and "\<And>x. (workers s)[i := x] = before @ x # after" by blast
  with workerClose(1) show ?thesis
    by (simp add: outcome_def)
next
  case (mergerSend i j)
  from update_split [OF mergerSend(3,4)] obtain before after
    where "mergers s = before @ Sending j # after"
      and "\<And>x. (mergers s)[i := x] = before @ x # after" by blast
  with mergerSend(1) show ?thesis
    by (simp add: outcome_def)
next
  case (mergerDone i)
  from update_split [OF mergerDone(3,5)] obtain before after
    where "mergers s = before @ Receiving # after"
      and "\<And>x. (mergers s)[i := x] = before @ x # after" by blast
  with mergerDone(1) show ?thesis
    by (simp add: outcome_def)
next
  case closeCombined
  then show ?thesis by (simp add: outcome_def)
next
  case mainEnd
  then show ?thesis by (simp add: outcome_def)
qed

lemma step_workLeft:
  assumes "step ftask dtask s s'"
  shows "workLeft s' < workLeft s"
  using assms
proof cases
  case (generatorSend j js)
  then show ?thesis by (simp add: workLeft_def)
next
  case generatorClose
  then show ?thesis by (simp add: workLeft_def)
next
  case (filterTask j st)
  then show ?thesis
    by (auto simp: workLeft_def afterTask_def split: sum.splits option.splits)
next
  case (filterPanic j)
  then show ?thesis by (simp add: workLeft_def live_def)
next
  case (filterSend j i)
  from update_split [OF filterSend(4,5)] obtain before after
    where "workers s = before @ Receiving # after"
      and "\<And>x. (workers s)[i := x] = before @ x # after" by blast
  with filterSend(1,3) show ?thesis
    by (simp add: workLeft_def)
next
  case filterClose
  then show ?thesis by (simp add: workLeft_def)
next
  case (workerTask i j st)
  from update_split [OF workerTask(3,4)] obtain before after
    where "workers s = before @ Running j # after"
      and "\<And>x. (workers s)[i := x] = before @ x # after" by blast
  with workerTask(1,5) show ?thesis
    by (auto simp: workLeft_def afterTask_def split: sum.splits option.splits)
next
  case (workerPanic i j)
  then show ?thesis by (simp add: workLeft_def live_def)
next
  case (workerSend i j)
  from update_split [OF workerSend(3,5)] obtain before after
    where w: "workers s = before @ Sending j # after"
      "\<And>x. (workers s)[i := x] = before @ x # after" by blast
  from update_split [OF workerSend(4,6)] obtain before' after'
    where m: "mergers s = before' @ Receiving # after'"
      "\<And>x. (mergers s)[i := x] = before' @ x # after'" by blast
  from workerSend(1) w m show ?thesis
    by (simp add: workLeft_def)
next
  case (workerClose i)
  from update_split [OF workerClose(3,4)] obtain before after
    where "workers s = before @ Receiving # after"
      and "\<And>x. (workers s)[i := x] = before @ x # after" by blast
  with workerClose(1) show ?thesis
    by (simp add: workLeft_def)
next
  case (mergerSend i j)
  from update_split [OF mergerSend(3,4)] obtain before after
    where "mergers s = before @ Sending j # after"
      and "\<And>x. (mergers s)[i := x] = before @ x # after" by blast
  with mergerSend(1) show ?thesis
    by (simp add: workLeft_def)
next
  case (mergerDone i)
  from update_split [OF mergerDone(3,5)] obtain before after
    where "mergers s = before @ Receiving # after"
      and "\<And>x. (mergers s)[i := x] = before @ x # after" by blast
  with mergerDone(1) show ?thesis
    by (simp add: workLeft_def)
next
  case closeCombined
  then show ?thesis by (simp add: workLeft_def)
next
  case mainEnd
  then show ?thesis by (simp add: workLeft_def live_def)
qed

lemma step_wellFormed:
  assumes "step ftask dtask s s'" and "wellFormed n s"
  shows "wellFormed n s'"
  using assms
proof cases
  case (generatorSend j js)
  with assms(2) show ?thesis by (auto simp: wellFormed_def live_def)
next
  case generatorClose
  with assms(2) show ?thesis by (auto simp: wellFormed_def live_def)
next
  case (filterTask j st)
  with assms(2) show ?thesis
    by (auto simp: wellFormed_def live_def afterTask_def split: sum.splits option.splits)
next
  case (filterPanic j)
  with assms(2) show ?thesis by (auto simp: wellFormed_def live_def)
next
  case (filterSend j i)
  with assms(2) show ?thesis
    by (auto simp: wellFormed_def live_def nth_list_update)
next
  case filterClose
  with assms(2) show ?thesis by (auto simp: wellFormed_def live_def)
next
  case (workerTask i j st)
  with assms(2) show ?thesis
    by (auto simp: wellFormed_def live_def nth_list_update afterTask_def
        split: sum.splits option.splits)
next
  case (workerPanic i j)
  with assms(2) show ?thesis by (auto simp: wellFormed_def live_def)
next
  case (workerSend i j)
  with assms(2) show ?thesis
    by (auto simp: wellFormed_def live_def nth_list_update)
next
  case (workerClose i)
  with assms(2) show ?thesis
    by (auto simp: wellFormed_def live_def nth_list_update)
next
  case (mergerSend i j)
  with assms(2) show ?thesis
    by (auto simp: wellFormed_def live_def nth_list_update)
next
  case (mergerDone i)
  with assms(2) show ?thesis
    by (auto simp: wellFormed_def live_def nth_list_update)
next
  case closeCombined
  with assms(2) show ?thesis
    by (auto simp: wellFormed_def live_def all_set_conv_all_nth)
next
  case mainEnd
  with assms(2) show ?thesis by (auto simp: wellFormed_def live_def)
qed

lemma start_wellFormed: "wellFormed (nat cnt) (startPipeline cnt gen)"
  by (simp add: wellFormed_def startPipeline_def)

lemma start_outcome:
  "outcome ftask dtask (startPipeline cnt (Inr jobs)) = mset (concat (map (through ftask dtask) jobs))"
proof -
  have "sum_list (map (inFlight run send) (replicate k Receiving)) = {#}" for run send k
    by (induction k) simp_all
  then show ?thesis
    by (simp add: outcome_def startPipeline_def)
qed

lemma reachable_invariants:
  assumes "reachable ftask dtask cnt gen s"
  shows "wellFormed (nat cnt) s
    \<and> outcome ftask dtask s = outcome ftask dtask (startPipeline cnt gen)"
  using assms unfolding reachable_def
proof (induction rule: rtranclp_induct)
  case base
  show ?case by (simp add: start_wellFormed)
next
  case (step s s')
  then show ?case
    by (simp add: step_wellFormed step_outcome)
qed

section \<open>The pipeline: the scheduler takes steps of the pipeline\<close>

lemma firstIndex_Some:
  "firstIndex P xs = Some i \<Longrightarrow> i < length xs \<and> P (xs ! i)"
  by (induction xs arbitrary: i) (auto split: if_splits)

lemma firstIndex_None:
  "firstIndex P xs = None \<Longrightarrow> x \<in> set xs \<Longrightarrow> \<not> P x"
  by (induction xs) (auto split: if_splits)

lemma orElse_Some:
  "orElse a b = Some x \<Longrightarrow> a = Some x \<or> (a = None \<and> b = Some x)"
  by (cases a) (simp_all add: orElse_def)

lemma orElse_None: "orElse a b = None \<longleftrightarrow> a = None \<and> b = None"
  by (cases a) (simp_all add: orElse_def)

lemma mainStep_step:
  assumes "live s" and "mainStep s = Some s'"
  shows "step ftask dtask s s'"
proof (cases "chOutClosed s")
  case True
  with assms show ?thesis
    using step.mainEnd [of s ftask dtask] by (simp add: mainStep_def)
next
  case False
  with assms show ?thesis
    using step.closeCombined [of s ftask dtask] by (auto simp: mainStep_def split: if_splits)
qed

lemma mergerStep_step:
  assumes "live s" and "mergerStep s = Some s'"
  shows "step ftask dtask s s'"
proof -
  from orElse_Some [OF assms(2) [unfolded mergerStep_def]]
  consider
    (send) i j where "firstIndex isSending (mergers s) = Some i" "mergers s ! i = Sending j"
      "s' = s\<lparr>mergers := (mergers s)[i := Receiving], emitted := emitted s @ [j]\<rparr>"
  | (fin) i where
      "firstIndex (\<lambda>(w, m). w = Finished \<and> m = Receiving) (zip (workers s) (mergers s)) = Some i"
      "s' = s\<lparr>mergers := (mergers s)[i := Finished]\<rparr>"
    by (auto split: option.splits stage.splits)
  then show ?thesis
  proof cases
    case send
    from firstIndex_Some [OF send(1)] have "i < length (mergers s)" by simp
    with assms(1) send(2) show ?thesis
      unfolding send(3) by (simp add: step.mergerSend)
  next
    case fin
    from firstIndex_Some [OF fin(1)]
    have "i < length (mergers s)" "i < length (workers s)"
      "mergers s ! i = Receiving" "workers s ! i = Finished"
      by auto
    with assms(1) show ?thesis
      unfolding fin(2) by (simp add: step.mergerDone)
  qed
qed

lemma workerStep_step:
  assumes "live s" and "workerStep dtask s = Some s'"
  shows "step ftask dtask s s'"
proof -
  from assms(2) consider
    (send) i j where
      "firstIndex (\<lambda>(w, m). isSending w \<and> m = Receiving) (zip (workers s) (mergers s)) = Some i"
      "workers s ! i = Sending j"
      "s' = s\<lparr>workers := (workers s)[i := Receiving], mergers := (mergers s)[i := Sending j]\<rparr>"
  | (task) i j st where "firstIndex isRunning (workers s) = Some i" "workers s ! i = Running j"
      "afterTask dtask j = Some st" "s' = s\<lparr>workers := (workers s)[i := st]\<rparr>"
  | (panic) i j where "firstIndex isRunning (workers s) = Some i" "workers s ! i = Running j"
      "afterTask dtask j = None" "s' = s\<lparr>crashed := True\<rparr>"
  | (close) i where "filterStage s = Finished"
      "firstIndex (\<lambda>w. w = Receiving) (workers s) = Some i"
      "s' = s\<lparr>workers := (workers s)[i := Finished]\<rparr>"
    unfolding workerStep_def
    by (auto dest!: orElse_Some split: option.splits stage.splits if_splits)
  then show ?thesis
  proof cases
    case send
    from firstIndex_Some [OF send(1)]
    have "i < length (workers s)" "i < length (mergers s)" "mergers s ! i = Receiving"
      by auto
    with assms(1) send(2) show ?thesis
      unfolding send(3) by (simp add: step.workerSend)
  next
    case task
    from firstIndex_Some [OF task(1)] have "i < length (workers s)" by simp
    with assms(1) task(2,3) show ?thesis
      unfolding task(4) by (simp add: step.workerTask)
  next
    case panic
    from firstIndex_Some [OF panic(1)] have "i < length (workers s)" by simp
    with assms(1) panic(2,3) show ?thesis
      unfolding panic(4) by (simp add: step.workerPanic)
  next
    case close
    from firstIndex_Some [OF close(2)] have "i < length (workers s)" "workers s ! i = Receiving"
      by simp_all
    with assms(1) close(1) show ?thesis
      unfolding close(3) by (simp add: step.workerClose)
  qed
qed

lemma filterStep_step:
  assumes "live s" and "filterStep ftask s = Some s'"
  shows "step ftask dtask s s'"
proof (cases "filterStage s")
  case Receiving
  show ?thesis
  proof (cases "source s")
    case Nil
    with assms Receiving show ?thesis
      using step.generatorClose [of s ftask dtask] step.filterClose [of s ftask dtask]
      by (auto simp: filterStep_def split: if_splits)
  next
    case (Cons j js)
    with assms Receiving show ?thesis
      using step.generatorSend [of s j js ftask dtask]
      by (auto simp: filterStep_def)
  qed
next
  case (Running j)
  with assms show ?thesis
    using step.filterTask [of s j ftask _ dtask] step.filterPanic [of s j ftask dtask]
    by (auto simp: filterStep_def split: option.splits)
next
  case (Sending j)
  with assms obtain i where i: "firstIndex (\<lambda>w. w = Receiving) (workers s) = Some i"
    and s': "s' = s\<lparr>filterStage := Receiving, workers := (workers s)[i := Running j]\<rparr>"
    by (auto simp: filterStep_def split: option.splits)
  from firstIndex_Some [OF i] have "i < length (workers s)" "workers s ! i = Receiving"
    by simp_all
  with assms(1) Sending show ?thesis
    unfolding s' by (simp add: step.filterSend)
next
  case Finished
  with assms show ?thesis by (simp add: filterStep_def)
qed

lemma advance_step:
  assumes "advance ftask dtask s = Some s'"
  shows "step ftask dtask s s'"
proof -
  from assms have l: "live s"
    by (auto simp: advance_def split: if_splits)
  with assms have "mainStep s = Some s' \<or> mergerStep s = Some s'
      \<or> workerStep dtask s = Some s' \<or> filterStep ftask s = Some s'"
    by (auto simp: advance_def dest!: orElse_Some)
  with l show ?thesis
    by (auto intro: mainStep_step mergerStep_step workerStep_step filterStep_step)
qed

lemma runFor_steps: "(step ftask dtask)\<^sup>*\<^sup>* s (runFor k ftask dtask s)"
proof (induction k arbitrary: s)
  case 0
  show ?case by simp
next
  case (Suc k)
  show ?case
  proof (cases "advance ftask dtask s")
    case None
    then show ?thesis by simp
  next
    case (Some s')
    from advance_step [OF Some] Suc [of s'] show ?thesis
      by (simp add: Some converse_rtranclp_into_rtranclp)
  qed
qed

lemma runFor_reachable:
  "reachable ftask dtask cnt gen (runFor k ftask dtask (startPipeline cnt gen))"
  by (simp add: reachable_def runFor_steps)

lemma isSending_iff: "isSending st \<longleftrightarrow> (\<exists>j. st = Sending j)"
  by (cases st) (simp_all add: isSending_def)

lemma isRunning_iff: "isRunning st \<longleftrightarrow> (\<exists>j. st = Running j)"
  by (cases st) (simp_all add: isRunning_def)

lemma mainStep_None:
  "mainStep s = None \<Longrightarrow> \<not> chOutClosed s \<and> (\<exists>i < length (mergers s). mergers s ! i \<noteq> Finished)"
  by (auto simp: mainStep_def all_set_conv_all_nth split: if_splits)

lemma mergerStep_None:
  assumes "mergerStep s = None" and "i < length (mergers s)" and "i < length (workers s)"
  shows "\<not> isSending (mergers s ! i) \<and> \<not> (workers s ! i = Finished \<and> mergers s ! i = Receiving)"
proof -
  from assms(1) have a: "firstIndex isSending (mergers s) = None"
    and b: "firstIndex (\<lambda>(w, m). w = Finished \<and> m = Receiving) (zip (workers s) (mergers s)) = None"
    by (auto simp: mergerStep_def orElse_None isSending_iff split: option.splits stage.splits
        dest: firstIndex_Some)
  have "mergers s ! i \<in> set (mergers s)"
    using assms(2) by simp
  moreover have "(workers s ! i, mergers s ! i) \<in> set (zip (workers s) (mergers s))"
    using assms(2,3) by (auto simp: set_zip)
  ultimately show ?thesis
    using firstIndex_None [OF a] firstIndex_None [OF b] by blast
qed

lemma workerStep_None:
  assumes "workerStep dtask s = None" and "i < length (mergers s)" and "i < length (workers s)"
  shows "\<not> (isSending (workers s ! i) \<and> mergers s ! i = Receiving)
    \<and> \<not> isRunning (workers s ! i)
    \<and> \<not> (filterStage s = Finished \<and> workers s ! i = Receiving)"
proof -
  from assms(1) have a:
    "firstIndex (\<lambda>(w, m). isSending w \<and> m = Receiving) (zip (workers s) (mergers s)) = None"
    by (auto simp: workerStep_def orElse_None isSending_iff split: option.splits stage.splits
        dest: firstIndex_Some)
  from assms(1) have b: "firstIndex isRunning (workers s) = None"
    by (auto simp: workerStep_def orElse_None isRunning_iff split: option.splits stage.splits
        dest: firstIndex_Some)
  from assms(1) have c:
    "filterStage s = Finished \<Longrightarrow> firstIndex (\<lambda>w. w = Receiving) (workers s) = None"
    by (auto simp: workerStep_def orElse_None split: option.splits if_splits)
  have "workers s ! i \<in> set (workers s)"
    using assms(3) by simp
  moreover have "(workers s ! i, mergers s ! i) \<in> set (zip (workers s) (mergers s))"
    using assms(2,3) by (auto simp: set_zip)
  ultimately show ?thesis
    using firstIndex_None [OF a] firstIndex_None [OF b] firstIndex_None [OF c] by blast
qed

lemma filterStep_None:
  assumes "filterStep ftask s = None" and "i < length (workers s)"
  shows "filterStage s = Finished \<or> workers s ! i \<noteq> Receiving"
proof -
  from assms(1) have "filterStage s = Finished
      \<or> firstIndex (\<lambda>w. w = Receiving) (workers s) = None"
    by (auto simp: filterStep_def split: stage.splits list.splits option.splits if_splits)
  moreover have "workers s ! i \<in> set (workers s)"
    using assms(2) by simp
  ultimately show ?thesis
    using firstIndex_None [of "\<lambda>w. w = Receiving" "workers s" "workers s ! i"] by blast
qed

lemma advance_progress:
  assumes wf: "wellFormed n s" and l: "live s"
  shows "advance ftask dtask s \<noteq> None"
proof
  assume "advance ftask dtask s = None"
  with l have none: "mainStep s = None" "mergerStep s = None" "workerStep dtask s = None"
    "filterStep ftask s = None"
    by (simp_all add: advance_def orElse_None)
  from wf have len: "length (workers s) = n" "length (mergers s) = n"
    by (simp_all add: wellFormed_def)
  from mainStep_None [OF none(1)] len obtain i where i: "i < n" and m: "mergers s ! i \<noteq> Finished"
    by auto
  from i len have il: "i < length (mergers s)" "i < length (workers s)" by simp_all
  from wf i have nr: "\<And>j. mergers s ! i \<noteq> Running j"
    by (simp add: wellFormed_def)
  from mergerStep_None [OF none(2) il] m nr
  have mr: "mergers s ! i = Receiving" and wnf: "workers s ! i \<noteq> Finished"
    by (cases "mergers s ! i"; auto simp: isSending_iff)+
  from workerStep_None [OF none(3) il] mr wnf
  have wr: "workers s ! i = Receiving" and fnf: "filterStage s \<noteq> Finished"
    by (cases "workers s ! i"; auto simp: isSending_iff isRunning_iff)+
  from filterStep_None [OF none(4) il(2)] wr fnf show False by simp
qed

section \<open>The pipeline: the tasks of main.go on the example files\<close>

lemma combineCanvas_defined:
  assumes "atOrigin a" and "atOrigin d" and "atOrigin b"
  shows "\<not> isl (combineCanvas a d b)"
proof -
  have "0 \<le> X (MaxPt (Bounds a)) + X (MaxPt (Bounds d)) + X (MaxPt (Bounds b))"
    and "0 \<le> intMax (intMax (Y (MaxPt (Bounds a))) (Y (MaxPt (Bounds d)))) (Y (MaxPt (Bounds b)))"
    using assms by (simp_all add: atOrigin_def intMax_def)
  from NewRGBA_Rect [OF this] show ?thesis
    by (simp add: combineCanvas_def Let_def)
qed

lemma diffTask_returns_job:
  assumes "commonSizeImageLengths files (inFile1 job) (inFile2 job) (outFile job @ ''tmp'')
             = Inr (files1, inA, inB)"
    and "files2 = fst (sh (compareCommand (comparePath job) inA inB (outFile job)) files1)"
    and a: "loadAndDecodePng files2 inA = Some a"
    and d: "loadAndDecodePng files2 (outFile job) = Some d"
    and b: "loadAndDecodePng files2 inB = Some b"
  shows "diffTask sh files job = Inr (Some job)"
proof -
  from combineCanvas_defined [OF decoded_atOrigin [OF a] decoded_atOrigin [OF d] decoded_atOrigin [OF b]]
  obtain c where "combineCanvas a d b = Inr c"
    by (cases "combineCanvas a d b") simp_all
  with assms show ?thesis
    by (simp add: diffTask_def diffFiles_def compareFiles_def Let_def combineImages_def)
qed

lemma exampleFilter_results:
  "exampleFilter (jobFor ''a.png'') = Inr (Some (jobFor ''a.png''))"
  "exampleFilter (jobFor ''b.png'') = Inr (Some (jobFor ''b.png''))"
  "exampleFilter (jobFor ''d.png'') = Inr None"
  by (simp_all add: exampleFilter_def filterTask_def filterDiffJobs_def fileExists_def jobFor_def
      exampleFiles_def)

lemma differingTool_writes:
  "fst (differingTool (compareCommand cmp inA inB ''out/a.png'') files)
     = files(''out/a.png'' \<mapsto> PngFile 1 1 (\<lambda>x y. red))"
  "fst (differingTool (compareCommand cmp inA inB ''out/b.png'') files)
     = files(''out/b.png'' \<mapsto> PngFile 1 1 (\<lambda>x y. red))"
  by (simp_all add: differingTool_def compareCommand_def)

lemma load_written:
  "q \<noteq> p \<Longrightarrow> loadAndDecodePng (files(p \<mapsto> f)) q = loadAndDecodePng files q"
  by (simp add: loadAndDecodePng_def)

lemma exampleWorker_a: "exampleWorker (jobFor ''a.png'') = Inr (Some (jobFor ''a.png''))"
proof -
  define files2 where "files2 = fst (differingTool
      (compareCommand (comparePath (jobFor ''a.png'')) ''in1/a.png'' ''in2/a.png''
         (outFile (jobFor ''a.png''))) exampleFiles)"
  have f2: "files2 = exampleFiles(''out/a.png'' \<mapsto> PngFile 1 1 (\<lambda>x y. red))"
    by (simp add: files2_def jobFor_def differingTool_writes)
  have n: "commonSizeImageLengths exampleFiles (inFile1 (jobFor ''a.png'')) (inFile2 (jobFor ''a.png''))
             (outFile (jobFor ''a.png'') @ ''tmp'')
           = Inr (exampleFiles, ''in1/a.png'', ''in2/a.png'')"
    by (simp add: commonSizeImageLengths_def example_loads jobFor_def)
  have a: "loadAndDecodePng files2 ''in1/a.png'' = Some \<lparr>Bounds = Rect 0 0 1 1, At = (\<lambda>x y. red)\<rparr>"
    by (simp add: f2 load_written example_loads)
  have d: "loadAndDecodePng files2 (outFile (jobFor ''a.png''))
             = Some \<lparr>Bounds = Rect 0 0 1 1, At = (\<lambda>x y. red)\<rparr>"
    unfolding f2 jobFor_def by (simp add: loadAndDecodePng_def png_Decode_def)
  have b: "loadAndDecodePng files2 ''in2/a.png'' = Some \<lparr>Bounds = Rect 0 0 1 1, At = (\<lambda>x y. zeroRGBA)\<rparr>"
    by (simp add: f2 load_written example_loads)
  show ?thesis
    unfolding exampleWorker_def
    by (rule diffTask_returns_job [where sh = differingTool and job = "jobFor ''a.png''",
          OF n files2_def a d b])
qed

lemma exampleWorker_b: "exampleWorker (jobFor ''b.png'') = Inr (Some (jobFor ''b.png''))"
proof -
  define tall where "tall = \<lparr>Bounds = Rect 0 0 1 2, At = (\<lambda>x y. zeroRGBA)\<rparr>"
  define short where
    "short = \<lparr>Bounds = Rect 0 0 2 1, At = (\<lambda>x y. if x = 1 \<and> y = 0 then red else zeroRGBA)\<rparr>"
  have lt: "loadAndDecodePng exampleFiles ''in1/b.png'' = Some tall"
    and ls: "loadAndDecodePng exampleFiles ''in2/b.png'' = Some short"
    by (simp_all add: tall_def short_def example_loads)
  have gt: "Dy (Bounds tall) > Dy (Bounds short)"
    by (simp add: tall_def short_def Dy_def Rect_def Pt_def)
  have out: "exampleFiles ''out/b.pngtmp'' \<noteq> Some Dir"
    by (simp add: example_absent)
  define files1 where "files1 = createAndEncode exampleFiles ''out/b.pngtmp''
      (Draw \<lparr>Bounds = Bounds tall, At = (\<lambda>x y. zeroRGBA)\<rparr> (Bounds short) short (Pt 0 0))"
  define files2 where "files2 = fst (differingTool
      (compareCommand (comparePath (jobFor ''b.png'')) ''in1/b.png'' ''out/b.pngtmp''
         (outFile (jobFor ''b.png''))) files1)"
  have f2: "files2 = files1(''out/b.png'' \<mapsto> PngFile 1 1 (\<lambda>x y. red))"
    by (simp add: files2_def jobFor_def differingTool_writes)
  have n: "commonSizeImageLengths exampleFiles (inFile1 (jobFor ''b.png'')) (inFile2 (jobFor ''b.png''))
             (outFile (jobFor ''b.png'') @ ''tmp'')
           = Inr (files1, ''in1/b.png'', ''out/b.pngtmp'')"
    using commonSize_first_taller [OF lt ls gt, of "''out/b.pngtmp''"]
    by (simp add: jobFor_def files1_def)
  have "loadAndDecodePng files1 ''in1/b.png'' = Some tall"
    using lt by (simp add: loadAndDecodePng_def files1_def createAndEncode_other)
  then have a: "loadAndDecodePng files2 ''in1/b.png'' = Some tall"
    by (simp add: f2 load_written)
  have d: "loadAndDecodePng files2 (outFile (jobFor ''b.png''))
             = Some \<lparr>Bounds = Rect 0 0 1 1, At = (\<lambda>x y. red)\<rparr>"
    unfolding f2 jobFor_def by (simp add: loadAndDecodePng_def png_Decode_def)
  have b: "loadAndDecodePng files2 ''out/b.pngtmp'' =
         Some \<lparr>Bounds = Bounds tall,
               At = (\<lambda>x y. if In x y (Bounds short) \<and> In x y (Bounds tall)
                             then At short x y else zeroRGBA)\<rparr>"
    using load_padded [OF lt ls out] by (simp add: f2 load_written files1_def)
  show ?thesis
    unfolding exampleWorker_def
    by (rule diffTask_returns_job [where sh = differingTool and job = "jobFor ''b.png''",
          OF n files2_def a d b])
qed

lemma exampleRun:
  "runFor 40 exampleFilter exampleWorker (startPipeline 2 (Inr exampleJobs)) =
     \<lparr>source = [], chInClosed = True, filterStage = Finished,
      workers = [Finished, Finished], mergers = [Finished, Finished],
      chOutClosed = True, emitted = [jobFor ''a.png'', jobFor ''b.png''],
      mainDone = True, crashed = False\<rparr>"
  by (simp add: eval_nat_numeral exampleJobs_def startPipeline_def advance_def orElse_def
      mainStep_def mergerStep_def workerStep_def filterStep_def live_def isSending_def
      isRunning_def afterTask_def exampleFilter_results exampleWorker_a exampleWorker_b)

lemma exampleRunSingle:
  "runFor 40 exampleFilter exampleWorker (startPipeline 1 (Inr exampleJobs)) =
     \<lparr>source = [], chInClosed = True, filterStage = Finished,
      workers = [Finished], mergers = [Finished],
      chOutClosed = True, emitted = [jobFor ''a.png'', jobFor ''b.png''],
      mainDone = True, crashed = False\<rparr>"
  by (simp add: eval_nat_numeral exampleJobs_def startPipeline_def advance_def orElse_def
      mainStep_def mergerStep_def workerStep_def filterStep_def live_def isSending_def
      isRunning_def afterTask_def exampleFilter_results exampleWorker_a exampleWorker_b)

section \<open>The pipeline: fan-out and fan-in\<close>

lemma sum_list_all_empty:
  "\<forall>x \<in> set xs. f x = {#} \<Longrightarrow> sum_list (map f xs) = ({#} :: 'a multiset)"
  by (induction xs) simp_all

lemma closed_all_done:
  assumes wf: "wellFormed n s" and n: "0 < n" and closed: "chOutClosed s"
  shows "(\<forall>m \<in> set (mergers s). m = Finished) \<and> (\<forall>w \<in> set (workers s). w = Finished)
    \<and> filterStage s = Finished \<and> chInClosed s \<and> source s = []
    \<and> outcome ftask dtask s = mset (emitted s)"
proof -
  from wf have len: "length (workers s) = n" "length (mergers s) = n"
    by (simp_all add: wellFormed_def)
  from wf closed have m: "\<forall>i < n. mergers s ! i = Finished"
    by (simp add: wellFormed_def)
  with wf have w: "\<forall>i < n. workers s ! i = Finished"
    by (simp add: wellFormed_def)
  with wf n have f: "filterStage s = Finished"
    by (auto simp: wellFormed_def)
  with wf have c: "chInClosed s" and src: "source s = []"
    by (simp_all add: wellFormed_def)
  from m len have ms: "\<forall>m \<in> set (mergers s). m = Finished"
    by (simp add: all_set_conv_all_nth)
  from w len have ws: "\<forall>w \<in> set (workers s). w = Finished"
    by (simp add: all_set_conv_all_nth)
  have "sum_list (map (inFlight (\<lambda>j. []) (\<lambda>j. [j])) (mergers s)) = {#}"
    using ms by (intro sum_list_all_empty) auto
  moreover have "sum_list (map (inFlight (acks dtask) (\<lambda>j. [j])) (workers s)) = {#}"
    using ws by (intro sum_list_all_empty) auto
  ultimately have "outcome ftask dtask s = mset (emitted s)"
    by (simp add: outcome_def f src)
  with ms ws f c src show ?thesis by simp
qed

text \<open>
  C8. Take any list of jobs from the generator, any two tasks and any number of
  workers that is at least one. In every state the pipeline can reach in which the
  combined channel is closed, every worker has closed its channel, the filter stage
  has closed its channel and the generator has no job left: all jobs have been
  consumed and processed. The jobs that the loop of \<open>main\<close> has received by then are,
  counted with multiplicity, the jobs that the tasks hand on for the jobs of the
  generator, whatever the number of workers and whatever the schedule; so they are
  the same as in any such state of the pipeline with one worker, up to their order.
\<close>

theorem fanIn_emits_same_jobs:
  assumes "1 \<le> cnt"
    and "reachable ftask dtask cnt (Inr jobs) s" and "chOutClosed s"
    and "reachable ftask dtask 1 (Inr jobs) s1" and "chOutClosed s1"
  shows "mset (emitted s) = mset (emitted s1)
    \<and> mset (emitted s) = mset (concat (map (through ftask dtask) jobs))
    \<and> length (workers s) = nat cnt
    \<and> (\<forall>w \<in> set (workers s). w = Finished)
    \<and> filterStage s = Finished \<and> source s = []"
proof -
  from reachable_invariants [OF assms(2)]
  have wf: "wellFormed (nat cnt) s"
    and out: "outcome ftask dtask s = mset (concat (map (through ftask dtask) jobs))"
    by (simp_all add: start_outcome)
  from reachable_invariants [OF assms(4)]
  have wf1: "wellFormed (nat 1) s1"
    and out1: "outcome ftask dtask s1 = mset (concat (map (through ftask dtask) jobs))"
    by (simp_all add: start_outcome)
  from assms(1) have pos: "0 < nat cnt" by simp
  from closed_all_done [OF wf pos assms(3), of ftask dtask] out
  have a: "mset (emitted s) = mset (concat (map (through ftask dtask) jobs))"
    and b: "\<forall>w \<in> set (workers s). w = Finished" "filterStage s = Finished" "source s = []"
    by simp_all
  from closed_all_done [OF wf1 _ assms(5), of ftask dtask] out1
  have a1: "mset (emitted s1) = mset (concat (map (through ftask dtask) jobs))"
    by simp
  from wf have "length (workers s) = nat cnt"
    by (simp add: wellFormed_def)
  with a a1 b show ?thesis by simp
qed

theorem fanIn_emits_same_jobs_witness:
  "mset (emitted (runFor 40 exampleFilter exampleWorker (startPipeline 2 (Inr exampleJobs))))
     = mset (emitted (runFor 40 exampleFilter exampleWorker (startPipeline 1 (Inr exampleJobs))))
   \<and> emitted (runFor 40 exampleFilter exampleWorker (startPipeline 2 (Inr exampleJobs)))
       = [jobFor ''a.png'', jobFor ''b.png'']
   \<and> workers (runFor 40 exampleFilter exampleWorker (startPipeline 2 (Inr exampleJobs)))
       = [Finished, Finished]"
proof -
  have c2: "chOutClosed (runFor 40 exampleFilter exampleWorker (startPipeline 2 (Inr exampleJobs)))"
    by (simp add: exampleRun)
  have c1: "chOutClosed (runFor 40 exampleFilter exampleWorker (startPipeline 1 (Inr exampleJobs)))"
    by (simp add: exampleRunSingle)
  have "(1::int) \<le> 2" by simp
  from fanIn_emits_same_jobs [OF this runFor_reachable c2 runFor_reachable c1]
  show ?thesis by (simp add: exampleRun)
qed

section \<open>The pipeline: termination\<close>

lemma acks_handedOn: "j \<in> set jobs \<Longrightarrow> set (acks ftask j) \<subseteq> set (handedOn ftask jobs)"
  by (auto simp: handedOn_def)

lemma afterTask_Sending:
  "afterTask t j = Some (Sending j') \<Longrightarrow> j' \<in> set (acks t j)"
  by (auto simp: afterTask_def acks_def split: sum.splits option.splits)

lemma afterTask_not_Running: "afterTask t j = Some st \<Longrightarrow> st \<noteq> Running j'"
  by (auto simp: afterTask_def split: sum.splits option.splits)

lemma step_jobsKnown:
  assumes "step ftask dtask s s'" and "jobsKnown ftask jobs s"
  shows "jobsKnown ftask jobs s'"
  using assms(1)
proof cases
  case (generatorSend j js)
  with assms(2) show ?thesis by (auto simp: jobsKnown_def)
next
  case generatorClose
  with assms(2) show ?thesis by (auto simp: jobsKnown_def)
next
  case (filterTask j st)
  with assms(2) have "j \<in> set jobs" by (simp add: jobsKnown_def)
  from acks_handedOn [OF this, of ftask] afterTask_Sending [of ftask j] afterTask_not_Running [of ftask j st]
    filterTask assms(2)
  show ?thesis by (auto simp: jobsKnown_def)
next
  case (filterPanic j)
  with assms(2) show ?thesis by (auto simp: jobsKnown_def)
next
  case (filterSend j i)
  with assms(2) show ?thesis by (auto simp: jobsKnown_def nth_list_update)
next
  case filterClose
  with assms(2) show ?thesis by (auto simp: jobsKnown_def)
next
  case (workerTask i j st)
  with assms(2) afterTask_not_Running [of dtask j st] show ?thesis
    by (auto simp: jobsKnown_def nth_list_update)
next
  case (workerPanic i j)
  with assms(2) show ?thesis by (auto simp: jobsKnown_def)
next
  case (workerSend i j)
  with assms(2) show ?thesis by (auto simp: jobsKnown_def nth_list_update)
next
  case (workerClose i)
  with assms(2) show ?thesis by (auto simp: jobsKnown_def nth_list_update)
next
  case (mergerSend i j)
  with assms(2) show ?thesis by (auto simp: jobsKnown_def)
next
  case (mergerDone i)
  with assms(2) show ?thesis by (auto simp: jobsKnown_def)
next
  case closeCombined
  with assms(2) show ?thesis by (auto simp: jobsKnown_def)
next
  case mainEnd
  with assms(2) show ?thesis by (auto simp: jobsKnown_def)
qed

lemma step_no_crash:
  assumes "step ftask dtask s s'" and "\<not> crashed s" and "jobsKnown ftask jobs s"
    and "\<forall>j \<in> set jobs. \<not> isl (ftask j)"
    and "\<forall>j \<in> set (handedOn ftask jobs). \<not> isl (dtask j)"
  shows "\<not> crashed s'"
  using assms(1)
proof cases
  case (filterPanic j)
  with assms(3) have "j \<in> set jobs" by (simp add: jobsKnown_def)
  with assms(4) filterPanic show ?thesis
    by (auto simp: afterTask_def split: sum.splits option.splits)
next
  case (workerPanic i j)
  with assms(3) have "j \<in> set (handedOn ftask jobs)" by (simp add: jobsKnown_def)
  with assms(5) workerPanic show ?thesis
    by (auto simp: afterTask_def split: sum.splits option.splits)
qed (use assms(2) in simp_all)

lemma reachable_no_crash:
  assumes "reachable ftask dtask cnt (Inr jobs) s"
    and "\<forall>j \<in> set jobs. \<not> isl (ftask j)"
    and "\<forall>j \<in> set (handedOn ftask jobs). \<not> isl (dtask j)"
  shows "jobsKnown ftask jobs s \<and> \<not> crashed s"
  using assms(1) unfolding reachable_def
proof (induction rule: rtranclp_induct)
  case base
  show ?case by (simp add: startPipeline_def jobsKnown_def)
next
  case (step s s')
  with step_jobsKnown [OF step(2), of jobs] step_no_crash [OF step(2) _ _ assms(2,3)]
  show ?case by simp
qed

lemma stuck_not_live:
  assumes "wellFormed n s" and "\<And>s'. \<not> step ftask dtask s s'"
  shows "\<not> live s"
proof
  assume "live s"
  from advance_progress [OF assms(1) this, of ftask dtask]
  obtain s' where "advance ftask dtask s = Some s'" by auto
  from advance_step [OF this] assms(2) show False by simp
qed

lemma step_live: "step ftask dtask s s' \<Longrightarrow> live s"
  by (cases rule: step.cases) simp_all

text \<open>
  C10. Every run of the pipeline is finite: no infinite sequence of steps exists,
  from any state. In every state that can be reached the closings are in order (the
  generator closes its channel only with no job left, the filter stage closes only
  after the generator, a worker only after the filter stage, a merger is done only
  after its worker, the combined channel is closed only after all mergers are done,
  and the loop of \<open>main\<close> ends only after that). A state that can be reached and from
  which no step is possible is one where the loop of \<open>main\<close> has ended or the process
  has crashed; and when the listing succeeded and no task panics on a job it is
  given (the filter on a job of the listing, the worker on a job the filter hands on),
  no reachable state has crashed, so that every run ends with the end of the loop of
  \<open>main\<close>.
\<close>

theorem pipeline_terminates:
  "wf {(s', s). step ftask dtask s s'}
   \<and> (reachable ftask dtask cnt gen s \<longrightarrow>
        wellFormed (nat cnt) s
        \<and> ((\<forall>s'. \<not> step ftask dtask s s') \<longrightarrow> mainDone s \<or> crashed s))
   \<and> (reachable ftask dtask cnt (Inr jobs) s
        \<and> (\<forall>j \<in> set jobs. \<not> isl (ftask j))
        \<and> (\<forall>j \<in> set (handedOn ftask jobs). \<not> isl (dtask j))
        \<longrightarrow> \<not> crashed s)"
proof (intro conjI impI)
  have "{(s', s). step ftask dtask s s'} \<subseteq> measure workLeft"
    by (auto simp: step_workLeft)
  then show "wf {(s', s). step ftask dtask s s'}"
    by (rule wf_subset [OF wf_measure])
next
  assume "reachable ftask dtask cnt gen s"
  then show "wellFormed (nat cnt) s"
    by (simp add: reachable_invariants)
next
  assume r: "reachable ftask dtask cnt gen s" and stuck: "\<forall>s'. \<not> step ftask dtask s s'"
  from reachable_invariants [OF r] have "wellFormed (nat cnt) s" by simp
  from stuck_not_live [OF this, of ftask dtask] stuck show "mainDone s \<or> crashed s"
    by (auto simp: live_def)
next
  assume "reachable ftask dtask cnt (Inr jobs) s
        \<and> (\<forall>j \<in> set jobs. \<not> isl (ftask j))
        \<and> (\<forall>j \<in> set (handedOn ftask jobs). \<not> isl (dtask j))"
  then show "\<not> crashed s"
    using reachable_no_crash [of ftask dtask cnt jobs s] by simp
qed

theorem pipeline_terminates_witness:
  "reachable exampleFilter exampleWorker 2 (Inr exampleJobs)
     (runFor 40 exampleFilter exampleWorker (startPipeline 2 (Inr exampleJobs)))
   \<and> (\<forall>s'. \<not> step exampleFilter exampleWorker
              (runFor 40 exampleFilter exampleWorker (startPipeline 2 (Inr exampleJobs))) s')
   \<and> wellFormed 2 (runFor 40 exampleFilter exampleWorker (startPipeline 2 (Inr exampleJobs)))
   \<and> mainDone (runFor 40 exampleFilter exampleWorker (startPipeline 2 (Inr exampleJobs)))
   \<and> \<not> crashed (runFor 40 exampleFilter exampleWorker (startPipeline 2 (Inr exampleJobs)))"
proof -
  define final where
    "final = runFor 40 exampleFilter exampleWorker (startPipeline 2 (Inr exampleJobs))"
  have r: "reachable exampleFilter exampleWorker 2 (Inr exampleJobs) final"
    unfolding final_def by (rule runFor_reachable)
  have "mainDone final"
    unfolding final_def by (simp add: exampleRun)
  then have stuck: "\<forall>s'. \<not> step exampleFilter exampleWorker final s'"
    using step_live [of exampleFilter exampleWorker final] by (auto simp: live_def)
  have np: "\<forall>j \<in> set exampleJobs. \<not> isl (exampleFilter j)"
    "\<forall>j \<in> set (handedOn exampleFilter exampleJobs). \<not> isl (exampleWorker j)"
    by (simp_all add: exampleJobs_def handedOn_def acks_def exampleFilter_results
        exampleWorker_a exampleWorker_b)
  from pipeline_terminates [of exampleFilter exampleWorker 2 "Inr exampleJobs" final exampleJobs]
    r stuck np
  show ?thesis
    unfolding final_def [symmetric] by auto
qed

end
